theory Spec2Isabelle
  imports Complex_Main "HOL-Library.Sublist"
begin

section \<open>Python string primitives used by the sources\<close>

text \<open>
  Python strings are modelled as \<open>string\<close>: the model covers texts whose code points lie
  in the Latin-1 range, where one \<open>char\<close> is one code point, so \<open>length\<close> is Python's
  \<open>len\<close>. The character classes below are those of CPython on that range.
  A float is modelled by the real number it denotes, and the comparisons of the code are
  those of the reals; not-a-number values are outside the model. The rounded operations
  of the machine are parameters of the model (the record \<open>arith\<close> below).
\<close>

definition isspace :: "char \<Rightarrow> bool" where
  \<comment> \<open>\<open>str.isspace\<close> on one character\<close>
  "isspace c = (let n = (of_char c :: nat)
                in (9 \<le> n \<and> n \<le> 13) \<or> (28 \<le> n \<and> n \<le> 32) \<or> n = 133 \<or> n = 160)"

definition strip :: "string \<Rightarrow> string" where
  \<comment> \<open>\<open>str.strip()\<close>: leading and trailing whitespace removed\<close>
  "strip s = rev (dropWhile isspace (rev (dropWhile isspace s)))"

definition lower_char :: "char \<Rightarrow> char" where
  "lower_char c = (let n = (of_char c :: nat)
                   in if (65 \<le> n \<and> n \<le> 90) \<or> (192 \<le> n \<and> n \<le> 214) \<or> (216 \<le> n \<and> n \<le> 222)
                      then char_of (n + 32) else c)"

definition lower :: "string \<Rightarrow> string" where
  \<comment> \<open>\<open>str.lower()\<close>\<close>
  "lower s = map lower_char s"

definition is_word_char :: "char \<Rightarrow> bool" where
  \<comment> \<open>the class \<open>\w\<close> of \<open>re\<close> on a \<open>str\<close> pattern: alphanumeric or underscore\<close>
  "is_word_char c = (let n = (of_char c :: nat)
     in (48 \<le> n \<and> n \<le> 57) \<or> (65 \<le> n \<and> n \<le> 90) \<or> n = 95 \<or> (97 \<le> n \<and> n \<le> 122)
        \<or> n = 170 \<or> n = 178 \<or> n = 179 \<or> n = 181 \<or> n = 185 \<or> n = 186
        \<or> (188 \<le> n \<and> n \<le> 190) \<or> (192 \<le> n \<and> n \<le> 214) \<or> (216 \<le> n \<and> n \<le> 246)
        \<or> (248 \<le> n \<and> n \<le> 255))"

function runs_of :: "(char \<Rightarrow> bool) \<Rightarrow> string \<Rightarrow> string list" where
  \<comment> \<open>the maximal runs of characters of a class, left to right\<close>
  "runs_of P [] = []"
| "runs_of P (c # cs) =
     (if P c then takeWhile P (c # cs) # runs_of P (dropWhile P cs)
      else runs_of P cs)"
  by pat_completeness auto
termination
  by (relation "measure (\<lambda>(P, s). length s)") (auto simp: less_Suc_eq_le length_dropWhile_le)

definition findall_words :: "string \<Rightarrow> string list" where
  \<comment> \<open>\<open>re.findall(r'\b\w+\b', s)\<close>: a match starts and ends at a word boundary, so the
      matches are the maximal runs of word characters\<close>
  "findall_words s = runs_of is_word_char s"

definition contains :: "string \<Rightarrow> string \<Rightarrow> bool" where
  \<comment> \<open>\<open>sub in s\<close>\<close>
  "contains sub s = sublist sub s"

definition adjust_index :: "int \<Rightarrow> int \<Rightarrow> int" where
  \<comment> \<open>how a slice bound \<open>i\<close> is read on a sequence of length \<open>n\<close>\<close>
  "adjust_index n i = (if i < 0 then max (i + n) 0 else min i n)"

definition py_slice :: "'a list \<Rightarrow> int \<Rightarrow> int \<Rightarrow> 'a list" where
  \<comment> \<open>\<open>xs[a:b]\<close>\<close>
  "py_slice xs a b =
     (let n = int (length xs); a' = adjust_index n a; b' = adjust_index n b
      in take (nat b' - nat a') (drop (nat a') xs))"

definition slice_to :: "'a list \<Rightarrow> int \<Rightarrow> 'a list" where
  \<comment> \<open>\<open>xs[:b]\<close>\<close>
  "slice_to xs b = py_slice xs 0 b"

definition rfind :: "string \<Rightarrow> char \<Rightarrow> int \<Rightarrow> int \<Rightarrow> int" where
  \<comment> \<open>\<open>s.rfind(c, start, end)\<close> for a one-character \<open>c\<close>: the highest index in the slice, or -1\<close>
  "rfind s c start end =
     (let n = int (length s); a = adjust_index n start; b = adjust_index n end
      in case filter (\<lambda>i. s ! i = c) (rev [nat a ..< nat b]) of
           [] \<Rightarrow> - 1
         | i # _ \<Rightarrow> int i)"

fun join :: "string \<Rightarrow> string list \<Rightarrow> string" where
  \<comment> \<open>\<open>sep.join(xs)\<close>\<close>
  "join sep [] = []"
| "join sep [x] = x"
| "join sep (x # y # ys) = x @ sep @ join sep (y # ys)"

section \<open>pdf\_processor.py: the chunker\<close>

record pdf_processor =
  chunk_size :: int
  chunk_overlap :: int

definition default_processor :: pdf_processor where
  \<comment> \<open>\<open>PDFProcessor()\<close>: the defaults of \<open>__init__\<close>\<close>
  "default_processor = \<lparr>chunk_size = 1000, chunk_overlap = 200\<rparr>"

definition best_end_of :: "int list \<Rightarrow> int \<Rightarrow> int \<Rightarrow> int" where
  \<comment> \<open>\<open>max([pos for pos in sentence_endings if pos > search_start], default=end)\<close>\<close>
  "best_end_of sentence_endings search_start end =
     (case filter (\<lambda>pos. pos > search_start) sentence_endings of
        [] \<Rightarrow> end
      | p # ps \<Rightarrow> fold max ps p)"

definition chunk_end :: "pdf_processor \<Rightarrow> string \<Rightarrow> int \<Rightarrow> int" where
  \<comment> \<open>the value of \<open>end\<close> when the chunk is cut, in the iteration that begins at \<open>start\<close>\<close>
  "chunk_end p text start =
     (let end = start + chunk_size p
      in if end < int (length text) then
           (let search_start = max (end - 200) start;
                sentence_endings =
                  [rfind text (CHR ''.'') search_start end,
                   rfind text (CHR ''!'') search_start end,
                   rfind text (CHR ''?'') search_start end,
                   rfind text (CHR 0x0A) search_start end];
                best_end = best_end_of sentence_endings search_start end
            in if best_end > search_start then best_end + 1 else end)
         else end)"

definition next_start :: "pdf_processor \<Rightarrow> int \<Rightarrow> int" where
  \<comment> \<open>\<open>start = end - self.chunk_overlap\<close>, then \<open>if start <= 0: start = end\<close>\<close>
  "next_start p end = (let start = end - chunk_overlap p in if start \<le> 0 then end else start)"

partial_function (option)
  chunk_loop :: "pdf_processor \<Rightarrow> string \<Rightarrow> int \<Rightarrow> string list \<Rightarrow> string list option"
where
  "chunk_loop p text start chunks =
     (if start < int (length text) then
        (let end = chunk_end p text start;
             chunk = strip (py_slice text start end);
             chunks' = (if chunk \<noteq> [] then chunks @ [chunk] else chunks)
         in if end \<ge> int (length text) then Some chunks'
            else chunk_loop p text (next_start p end) chunks')
      else Some chunks)"

declare chunk_loop.simps [code]

definition create_chunks :: "pdf_processor \<Rightarrow> string \<Rightarrow> string list option" where
  \<comment> \<open>\<open>PDFProcessor._create_chunks\<close>; \<open>None\<close> is a loop that never returns\<close>
  "create_chunks p text =
     (if int (length text) \<le> chunk_size p then Some [text]
      else chunk_loop p text 0 [])"

section \<open>query\_engine.py: the data model\<close>

text \<open>
  A chunk is a Python dict. The keys written by \<open>extract_text_chunks\<close> are always
  present; the three score keys exist only on the copies made per query, so they are
  optional here. Dicts are objects: the model keeps them in a heap (a list of cells, an
  address is an index) and the engine holds addresses, so that a copy and an alias differ.
\<close>

type_synonym addr = nat

record chunk =
  chunk_text :: string
  chunk_id :: nat
  chunk_length :: nat
  source :: string
  relevance_score :: "real option"
  semantic_score :: "real option"
  keyword_score :: "real option"

record qa_result =
  score :: real
  answer :: string

text \<open>
  The arithmetic of floats. The code computes with floats in six places; each is a field
  here, named after the expression of the source, so that no theorem about the engine
  rests on how the machine rounds. \<open>len_ratio\<close> is \<open>len(intersection) / len(union)\<close>,
  \<open>float_sum\<close> is \<open>jaccard_score + phrase_boost\<close>, \<open>boost_value\<close> is the literal \<open>0.3\<close> of
  \<open>phrase_boost\<close>, \<open>weighted_sum\<close> is \<open>0.7 * sem_score + 0.3 * kw_score\<close>, \<open>relevance_floor\<close>
  is the literal \<open>0.1\<close> of \<open>score > 0.1\<close> and \<open>confidence_floor\<close> the literal \<open>0.3\<close> of
  \<open>best_score < 0.3\<close>. The literals \<open>0.0\<close>, \<open>1.0\<close> and \<open>-1\<close> are exact in every binary
  format and are written as they are.
\<close>

record arith =
  len_ratio :: "nat \<Rightarrow> nat \<Rightarrow> real"
  float_sum :: "real \<Rightarrow> real \<Rightarrow> real"
  boost_value :: real
  weighted_sum :: "real \<Rightarrow> real \<Rightarrow> real"
  relevance_floor :: real
  confidence_floor :: real

definition exact :: arith where
  \<comment> \<open>arithmetic without rounding\<close>
  "exact =
     \<lparr>len_ratio = (\<lambda>a b. real a / real b),
      float_sum = (\<lambda>x y. x + y),
      boost_value = 0.3,
      weighted_sum = (\<lambda>sem_score kw_score. 0.7 * sem_score + 0.3 * kw_score),
      relevance_floor = 0.1,
      confidence_floor = 0.3\<rparr>"

text \<open>
  The arithmetic of Python's floats: IEEE 754 binary64, every operation rounded to the
  nearest double, ties to the even one. Results beyond the largest double are outside
  the model. It is the arithmetic of the code when the similarity scores are doubles.
\<close>

definition round_half_even :: "real \<Rightarrow> int" where
  "round_half_even m =
     (let f = \<lfloor>m\<rfloor>; d = m - of_int f
      in if d < 1 / 2 then f else if d > 1 / 2 then f + 1 else if even f then f else f + 1)"

fun halvings :: "nat \<Rightarrow> real \<Rightarrow> nat" where
  \<comment> \<open>how often \<open>x\<close> is halved before it is below 2\<close>
  "halvings 0 x = 0"
| "halvings (Suc n) x = (if x < 2 then 0 else Suc (halvings n (x / 2)))"

fun doublings :: "nat \<Rightarrow> real \<Rightarrow> nat" where
  \<comment> \<open>how often \<open>x\<close> is doubled before it is at least 1\<close>
  "doublings 0 x = 0"
| "doublings (Suc n) x = (if 1 \<le> x then 0 else Suc (doublings n (2 * x)))"

definition binary_exponent :: "real \<Rightarrow> int" where
  \<comment> \<open>the exponent of a positive number, not below that of the smallest normal double\<close>
  "binary_exponent a = (if 1 \<le> a then int (halvings 1024 a) else - int (doublings 1022 a))"

definition two_to :: "int \<Rightarrow> real" where
  "two_to e = (if 0 \<le> e then 2 ^ nat e else 1 / 2 ^ nat (- e))"

definition round_to_double :: "real \<Rightarrow> real" where
  "round_to_double x =
     (if x = 0 then 0
      else let a = \<bar>x\<bar>;
               ulp = two_to (binary_exponent a - 52)
           in sgn x * of_int (round_half_even (a / ulp)) * ulp)"

definition binary64 :: arith where
  "binary64 =
     \<lparr>len_ratio = (\<lambda>a b. round_to_double (real a / real b)),
      float_sum = (\<lambda>x y. round_to_double (x + y)),
      boost_value = round_to_double 0.3,
      weighted_sum = (\<lambda>sem_score kw_score.
         round_to_double (round_to_double (round_to_double 0.7 * sem_score)
                          + round_to_double (round_to_double 0.3 * kw_score))),
      relevance_floor = round_to_double 0.1,
      confidence_floor = round_to_double 0.3\<rparr>"

text \<open>
  What the engine takes as given. The three inference services are opaque: each is a
  function that returns its value (\<open>Inr\<close>) or raises (\<open>Inl\<close> with the text of the
  exception). \<open>summarizer\<close> stands for the whole expression
  \<open>self.summarizer(...)[0]["summary_text"]\<close>, and \<open>cosine_similarity\<close> for the library
  function of that name, which returns a matrix. \<open>arithmetic\<close> is the arithmetic of the
  floats.
\<close>

record 'e services =
  encode :: "string list \<Rightarrow> string + 'e list"
  cosine_similarity :: "'e list \<Rightarrow> 'e list \<Rightarrow> string + real list list"
  summarizer :: "string \<Rightarrow> nat \<Rightarrow> nat \<Rightarrow> bool \<Rightarrow> string + string"
  qa_model :: "string \<Rightarrow> string \<Rightarrow> string + qa_result"
  arithmetic :: arith

datatype call =
    Encode "string list"
  | Summarize string nat nat bool
  | Answer string string

text \<open>
  The state: the two fields of \<open>QueryEngine\<close> that hold the document, the heap of chunk
  objects, and the log of the service calls made so far.
\<close>

record 'e state =
  document_chunks :: "addr list"
  chunk_embeddings :: "'e list option"
  heap :: "chunk list"
  calls :: "call list"

definition init_state :: "chunk list \<Rightarrow> 'e state" where
  \<comment> \<open>\<open>QueryEngine.__init__\<close>, with the chunk objects that exist at start\<close>
  "init_state h = \<lparr>document_chunks = [], chunk_embeddings = None, heap = h, calls = []\<rparr>"

definition log_call :: "call \<Rightarrow> 'e state \<Rightarrow> 'e state" where
  "log_call c s = s\<lparr>calls := calls s @ [c]\<rparr>"

definition text_of :: "'e state \<Rightarrow> addr \<Rightarrow> string" where
  \<comment> \<open>\<open>chunk['text']\<close>\<close>
  "text_of s a = chunk_text (heap s ! a)"

definition dict_copy :: "'e state \<Rightarrow> addr \<Rightarrow> addr \<times> 'e state" where
  \<comment> \<open>\<open>d.copy()\<close>: a new object with the same items\<close>
  "dict_copy s a = (length (heap s), s\<lparr>heap := heap s @ [heap s ! a]\<rparr>)"

definition set_scores :: "addr \<Rightarrow> real \<Rightarrow> real \<Rightarrow> real \<Rightarrow> 'e state \<Rightarrow> 'e state" where
  \<comment> \<open>the three item assignments on the object at \<open>a\<close>\<close>
  "set_scores a rel sem kw s =
     s\<lparr>heap := (heap s)[a := (heap s ! a)\<lparr>relevance_score := Some rel,
                                          semantic_score := Some sem,
                                          keyword_score := Some kw\<rparr>]\<rparr>"

section \<open>query\_engine.py: loading and clearing\<close>

definition initialize_document ::
  "'e services \<Rightarrow> 'e state \<Rightarrow> addr list \<Rightarrow> (string + unit) \<times> 'e state" where
  \<comment> \<open>the model object exists after \<open>__init__\<close>, so \<open>_load_model\<close> is not called again\<close>
  "initialize_document svc s chunks =
     (let s1 = s\<lparr>document_chunks := chunks\<rparr>;
          chunk_texts = map (text_of s1) chunks;
          s2 = log_call (Encode chunk_texts) s1
      in case encode svc chunk_texts of
           Inl e \<Rightarrow> (Inl e, s2)
         | Inr embeddings \<Rightarrow> (Inr (), s2\<lparr>chunk_embeddings := Some embeddings\<rparr>))"

definition clear_document :: "'e state \<Rightarrow> 'e state" where
  "clear_document s = s\<lparr>document_chunks := [], chunk_embeddings := None\<rparr>"

section \<open>query\_engine.py: scoring and retrieval\<close>

definition query_words_of :: "string \<Rightarrow> string set" where
  \<comment> \<open>the two assignments to \<open>query_words\<close>\<close>
  "query_words_of query_text =
     Set.filter (\<lambda>word. length word > 2) (set (findall_words (lower query_text)))"

definition keyword_score_of :: "arith \<Rightarrow> string \<Rightarrow> string set \<Rightarrow> string \<Rightarrow> real" where
  \<comment> \<open>the body of the loop over the chunks\<close>
  "keyword_score_of ar query_text query_words text =
     (let chunk_words = set (findall_words (lower text));
          intersection = query_words \<inter> chunk_words;
          union = query_words \<union> chunk_words;
          jaccard_score = (if union \<noteq> {} then len_ratio ar (card intersection) (card union) else 0);
          phrase_boost = (if contains (lower query_text) (lower text) then boost_value ar else 0)
      in min (float_sum ar jaccard_score phrase_boost) 1)"

definition calculate_keyword_scores :: "arith \<Rightarrow> 'e state \<Rightarrow> string \<Rightarrow> real list" where
  "calculate_keyword_scores ar s query_text =
     (let query_words = query_words_of query_text
      in if query_words = {} then replicate (length (document_chunks s)) 0
         else map (keyword_score_of ar query_text query_words)
                  (map (text_of s) (document_chunks s)))"

definition combined_scores :: "arith \<Rightarrow> real list \<Rightarrow> real list \<Rightarrow> (real \<times> nat) list" where
  \<comment> \<open>the loop over \<open>enumerate(zip(similarities, keyword_scores))\<close>\<close>
  "combined_scores ar similarities keyword_scores =
     map (\<lambda>(i, sem_score, kw_score). (weighted_sum ar sem_score kw_score, i))
         (enumerate 0 (zip similarities keyword_scores))"

definition sort_reverse :: "(real \<times> nat) list \<Rightarrow> (real \<times> nat) list" where
  \<comment> \<open>\<open>list.sort(reverse=True, key=lambda x: x[0])\<close>: Python's sort is stable, also when
      reversed, so entries with equal keys keep their order\<close>
  "sort_reverse xs = sort_key (\<lambda>x. - fst x) xs"

fun select_chunks ::
  "arith \<Rightarrow> real list \<Rightarrow> real list \<Rightarrow> (real \<times> nat) list \<Rightarrow> 'e state
     \<Rightarrow> addr list \<times> 'e state" where
  \<comment> \<open>the loop that builds \<open>relevant_chunks\<close>\<close>
  "select_chunks ar similarities keyword_scores [] s = ([], s)"
| "select_chunks ar similarities keyword_scores ((sc, idx) # rest) s =
     (if sc > relevance_floor ar then
        (let (chunk, s1) = dict_copy s (document_chunks s ! idx);
             s2 = set_scores chunk sc (similarities ! idx) (keyword_scores ! idx) s1;
             (relevant_chunks, s3) = select_chunks ar similarities keyword_scores rest s2
         in (chunk # relevant_chunks, s3))
      else select_chunks ar similarities keyword_scores rest s)"

definition find_relevant_chunks ::
  "'e services \<Rightarrow> 'e state \<Rightarrow> string \<Rightarrow> int \<Rightarrow> addr list \<times> 'e state" where
  \<comment> \<open>every exception is caught and turned into the empty list\<close>
  "find_relevant_chunks svc s query_text top_k =
     (let s1 = log_call (Encode [query_text]) s
      in case encode svc [query_text] of
           Inl e \<Rightarrow> ([], s1)
         | Inr query_embedding \<Rightarrow>
            (case chunk_embeddings s1 of
               None \<Rightarrow> ([], s1)
             | Some embeddings \<Rightarrow>
                (case cosine_similarity svc query_embedding embeddings of
                   Inl e \<Rightarrow> ([], s1)
                 | Inr [] \<Rightarrow> ([], s1)
                 | Inr (similarities # _) \<Rightarrow>
                     (let keyword_scores = calculate_keyword_scores (arithmetic svc) s1 query_text;
                          ranked = sort_reverse
                                     (combined_scores (arithmetic svc) similarities keyword_scores)
                      in select_chunks (arithmetic svc) similarities keyword_scores
                           (slice_to ranked top_k) s1))))"

section \<open>query\_engine.py: answering a query\<close>

function show_nat :: "nat \<Rightarrow> string" where
  \<comment> \<open>\<open>str(n)\<close> for a length or a counter\<close>
  "show_nat n =
     (if n < 10 then [char_of (48 + n)] else show_nat (n div 10) @ [char_of (48 + n mod 10)])"
  by pat_completeness auto
termination
  by (relation "measure id") auto

definition no_document_message :: string where
  "no_document_message = ''No document loaded. Please upload a PDF first.''"

definition not_found_message :: string where
  "not_found_message =
     ''I couldn'' @ [CHR 0x27]
       @ ''t find relevant information in the document to answer your query.''"

definition error_prefix :: string where
  "error_prefix = ''Error processing your query: ''"

definition summary_marker :: string where
  \<comment> \<open>the glyph before the words is kept as the bytes of the source file\<close>
  "summary_marker =
     [CHR 0xC3, CHR 0xB0, CHR 0xC5, CHR 0xB8, CHR 0xE2, CHR 0x80, CHR 0x9C, CHR 0xE2, CHR 0x80, CHR 0x9E]
       @ '' Summary of the document:'' @ [CHR 0x0A, CHR 0x0A]"

definition answer_marker :: string where
  "answer_marker =
     [CHR 0xC3, CHR 0xB0, CHR 0xC5, CHR 0xB8, CHR 0xE2, CHR 0x80, CHR 0x99, CHR 0xC2, CHR 0xA1]
       @ '' Answer: ''"

definition summary_keywords :: "string list" where
  "summary_keywords = [''summarize'', ''summary'', ''overview'']"

definition is_summary_query :: "string \<Rightarrow> bool" where
  \<comment> \<open>\<open>any(keyword in query_text.lower() for keyword in [...])\<close>\<close>
  "is_summary_query query_text =
     list_ex (\<lambda>keyword. contains keyword (lower query_text)) summary_keywords"

definition full_text_of :: "'e state \<Rightarrow> string" where
  \<comment> \<open>\<open>" ".join([chunk["text"] for chunk in self.document_chunks])[:3000]\<close>\<close>
  "full_text_of s = slice_to (join '' '' (map (text_of s) (document_chunks s))) 3000"

fun section_parts :: "'e state \<Rightarrow> nat \<times> addr \<Rightarrow> string list" where
  \<comment> \<open>what one iteration of the loop of \<open>_generate_response\<close> appends\<close>
  "section_parts s (i, chunk) =
     (let chunk_text = text_of s chunk;
          chunk_text = (if length chunk_text > 800 then slice_to chunk_text 800 @ ''...''
                        else chunk_text)
      in [''--- Relevant Section '' @ show_nat (i + 1) @ '' ---'', chunk_text, []])"

definition generate_response :: "'e state \<Rightarrow> string \<Rightarrow> addr list \<Rightarrow> string" where
  "generate_response s query_text relevant_chunks =
     (let response_parts =
            [''Based on the document content:'' @ [CHR 0x0A]]
              @ concat (map (section_parts s) (enumerate 0 relevant_chunks))
              @ (if length relevant_chunks > 1
                 then [''--- Summary ---'',
                       ''The above content from '' @ show_nat (length relevant_chunks)
                         @ '' sections answers your query about: '' @ [CHR 0x27] @ query_text
                         @ [CHR 0x27] @ ''.'']
                 else []);
          response = join [CHR 0x0A] response_parts
      in if length response > 2000
         then slice_to response 2000 @ [CHR 0x0A, CHR 0x0A] @ ''[Response truncated for readability]''
         else response)"

fun qa_loop ::
  "'e services \<Rightarrow> string \<Rightarrow> addr list \<Rightarrow> string \<times> real \<times> string \<Rightarrow> 'e state
     \<Rightarrow> (string + string \<times> real \<times> string) \<times> 'e state" where
  \<comment> \<open>the loop over \<open>relevant_chunks\<close>; the triple is
      \<open>(best_answer, best_score, best_context)\<close>\<close>
  "qa_loop svc query_text [] best s = (Inr best, s)"
| "qa_loop svc query_text (chunk # rest) (best_answer, best_score, best_context) s =
     (let context = slice_to (text_of s chunk) 1000;
          s1 = log_call (Answer query_text context) s
      in case qa_model svc query_text context of
           Inl e \<Rightarrow> (Inl e, s1)
         | Inr result \<Rightarrow>
             if score result > best_score
             then qa_loop svc query_text rest (answer result, score result, context) s1
             else qa_loop svc query_text rest (best_answer, best_score, best_context) s1)"

definition query ::
  "'e services \<Rightarrow> 'e state \<Rightarrow> string \<Rightarrow> int \<Rightarrow> (string \<times> nat) \<times> 'e state" where
  \<comment> \<open>\<open>QueryEngine.query\<close>; the \<open>except\<close> clause is the two \<open>Inl\<close> branches\<close>
  "query svc s query_text top_k =
     (if document_chunks s = [] \<or> chunk_embeddings s = None
      then ((no_document_message, 0), s)
      else if is_summary_query query_text then
        (let full_text = full_text_of s;
             s1 = log_call (Summarize full_text 180 60 False) s
         in case summarizer svc full_text 180 60 False of
              Inl e \<Rightarrow> ((error_prefix @ e, 0), s1)
            | Inr summary \<Rightarrow> ((summary_marker @ summary, 1), s1))
      else
        (let (relevant_chunks, s1) = find_relevant_chunks svc s query_text top_k
         in if relevant_chunks = [] then ((not_found_message, 0), s1)
            else
              (case qa_loop svc query_text relevant_chunks ([], - 1, []) s1 of
                 (Inl e, s2) \<Rightarrow> ((error_prefix @ e, 0), s2)
               | (Inr (best_answer, best_score, best_context), s2) \<Rightarrow>
                   if best_score < confidence_floor (arithmetic svc) \<or> best_answer = []
                      \<or> length (strip best_answer) < 3
                   then ((generate_response s2 query_text relevant_chunks,
                          length relevant_chunks), s2)
                   else ((answer_marker @ strip best_answer, length relevant_chunks), s2))))"

definition default_top_k :: int where
  \<comment> \<open>the default of \<open>query\<close>, which is what \<open>main.py\<close> uses\<close>
  "default_top_k = 5"

section \<open>Notions of the specification\<close>

text \<open>
  The keyword score as the specification words it: both token sets are the lowercase
  alphanumeric runs longer than two characters, and the bonus depends on the substring
  test alone.
\<close>

definition is_alnum_char :: "char \<Rightarrow> bool" where
  "is_alnum_char c = (is_word_char c \<and> c \<noteq> CHR ''_'')"

definition spec_tokens :: "string \<Rightarrow> string set" where
  "spec_tokens s = Set.filter (\<lambda>word. length word > 2) (set (runs_of is_alnum_char (lower s)))"

definition spec_keyword_score :: "string \<Rightarrow> string \<Rightarrow> real" where
  "spec_keyword_score query_text text =
     (let q = spec_tokens query_text;
          p = spec_tokens text;
          jaccard = (if q \<union> p = {} then 0 else real (card (q \<inter> p)) / real (card (q \<union> p)));
          bonus = (if contains (lower query_text) (lower text) then 0.3 else 0)
      in min (jaccard + bonus) 1)"

text \<open>The order of the retriever's result: higher score first, equal scores by index.\<close>

definition ranked_before :: "real \<times> nat \<Rightarrow> real \<times> nat \<Rightarrow> bool" where
  "ranked_before x y = (fst x > fst y \<or> (fst x = fst y \<and> snd x < snd y))"

text \<open>The retriever's selection: the floor on the score, and the copy it returns.\<close>

definition scored_copy :: "'e state \<Rightarrow> real list \<Rightarrow> real list \<Rightarrow> real \<times> nat \<Rightarrow> chunk" where
  \<comment> \<open>passage \<open>idx\<close> of the stored document, with the three scores added\<close>
  "scored_copy s similarities keyword_scores x =
     (heap s ! (document_chunks s ! snd x))
       \<lparr>relevance_score := Some (fst x),
        semantic_score := Some (similarities ! snd x),
        keyword_score := Some (keyword_scores ! snd x)\<rparr>"

definition clears_floor :: "arith \<Rightarrow> real \<times> nat \<Rightarrow> bool" where
  "clears_floor ar x = (fst x > relevance_floor ar)"

text \<open>
  The semantic scores of a query: the row \<open>similarities\<close> that the retriever takes from
  \<open>cosine_similarity\<close> of the encoded query and the stored embeddings, when both calls
  return.
\<close>

definition semantic_scores :: "'e services \<Rightarrow> 'e state \<Rightarrow> string \<Rightarrow> real list option" where
  "semantic_scores svc s query_text =
     (case encode svc [query_text] of
        Inl e \<Rightarrow> None
      | Inr query_embedding \<Rightarrow>
          (case chunk_embeddings s of
             None \<Rightarrow> None
           | Some embeddings \<Rightarrow>
               (case cosine_similarity svc query_embedding embeddings of
                  Inl e \<Rightarrow> None
                | Inr [] \<Rightarrow> None
                | Inr (similarities # _) \<Rightarrow> Some similarities)))"

text \<open>
  The rank of passage \<open>i\<close> among the first \<open>n\<close> passages under a score: the number of
  passages that come before it, by higher score or by equal score and lower index.
\<close>

definition rank_of :: "(nat \<Rightarrow> real) \<Rightarrow> nat \<Rightarrow> nat \<Rightarrow> nat" where
  "rank_of combined n i =
     length (filter (\<lambda>j. ranked_before (combined j, j) (combined i, i)) [0..<n])"

text \<open>
  The alignment invariant of the document session: no embeddings and no passages, or one
  embedding per passage, the embeddings being those of the stored passages.
\<close>

definition aligned :: "'e services \<Rightarrow> 'e state \<Rightarrow> bool" where
  "aligned svc s =
     (case chunk_embeddings s of
        None \<Rightarrow> document_chunks s = []
      | Some embeddings \<Rightarrow>
          length embeddings = length (document_chunks s)
          \<and> encode svc (map (text_of s) (document_chunks s)) = Inr embeddings)"

datatype op = Load "addr list" | Clear | Query string

fun apply_op :: "'e services \<Rightarrow> 'e state \<Rightarrow> op \<Rightarrow> 'e state" where
  "apply_op svc s (Load chunks) = snd (initialize_document svc s chunks)"
| "apply_op svc s Clear = clear_document s"
| "apply_op svc s (Query query_text) = snd (query svc s query_text default_top_k)"

definition run :: "'e services \<Rightarrow> 'e state \<Rightarrow> op list \<Rightarrow> 'e state" where
  "run svc s ops = foldl (apply_op svc) s ops"

text \<open>The best of a list of QA results: the highest confidence, the first result that has it.\<close>

definition highest_confidence :: "qa_result list \<Rightarrow> real" where
  "highest_confidence results = Max (score ` set results)"

definition first_with :: "real \<Rightarrow> qa_result list \<Rightarrow> string" where
  "first_with c results = (case filter (\<lambda>r. score r = c) results of [] \<Rightarrow> [] | r # _ \<Rightarrow> answer r)"

text \<open>
  The fallback excerpt as the specification words it, with the wording of the source for
  the labels: after an opening line, for each passage in order a numbered section header
  and up to the first 800 characters of its text, with an ellipsis when the text was cut;
  when there is more than one passage, a closing note that names the query and the number
  of passages; the whole cut to 2000 characters, with a notice when it was cut.
\<close>

definition excerpt :: "string \<Rightarrow> string" where
  "excerpt t = (if length t > 800 then take 800 t @ ''...'' else t)"

fun labeled_sections :: "nat \<Rightarrow> string list \<Rightarrow> string" where
  "labeled_sections i [] = []"
| "labeled_sections i (t # ts) =
     [CHR 0x0A] @ ''--- Relevant Section '' @ show_nat i @ '' ---''
       @ [CHR 0x0A] @ excerpt t @ [CHR 0x0A] @ labeled_sections (i + 1) ts"

definition closing_note :: "string \<Rightarrow> nat \<Rightarrow> string" where
  "closing_note query_text n =
     [CHR 0x0A] @ ''--- Summary ---'' @ [CHR 0x0A] @ ''The above content from '' @ show_nat n
       @ '' sections answers your query about: '' @ [CHR 0x27] @ query_text @ [CHR 0x27] @ ''.''"

definition fallback_excerpt :: "string \<Rightarrow> string list \<Rightarrow> string" where
  "fallback_excerpt query_text texts =
     (let assembled = ''Based on the document content:'' @ [CHR 0x0A]
                        @ labeled_sections 1 texts
                        @ (if length texts > 1 then closing_note query_text (length texts) else [])
      in if length assembled > 2000
         then take 2000 assembled @ [CHR 0x0A, CHR 0x0A] @ ''[Response truncated for readability]''
         else assembled)"

section \<open>A small document and stub services, to run the model on\<close>

definition example_chunk :: "string \<Rightarrow> nat \<Rightarrow> chunk" where
  "example_chunk t i =
     \<lparr>chunk_text = t, chunk_id = i, chunk_length = length t, source = ''a.pdf'',
      relevance_score = None, semantic_score = None, keyword_score = None\<rparr>"

definition example_heap :: "chunk list" where
  "example_heap =
     [example_chunk ''The cat is on the mat.'' 0,
      example_chunk ''Dogs bark loudly.'' 1,
      example_chunk ''boom'' 0]"

definition example_encode :: "string list \<Rightarrow> string + nat list" where
  \<comment> \<open>an embedding is the length of the text; the text \<open>boom\<close> makes the encoder raise\<close>
  "example_encode texts =
     (if ''boom'' \<in> set texts then Inl ''encoder failed'' else Inr (map length texts))"

definition example_similarity :: "nat \<Rightarrow> real" where
  "example_similarity e = (if e < 20 then 1 / 2 else 1 / 10)"

definition example_cosine :: "nat list \<Rightarrow> nat list \<Rightarrow> string + real list list" where
  "example_cosine q es = Inr [map example_similarity es]"

definition example_summarizer :: "string \<Rightarrow> nat \<Rightarrow> nat \<Rightarrow> bool \<Rightarrow> string + string" where
  "example_summarizer t max_length min_length do_sample = Inr (take 7 t)"

definition example_qa :: "string \<Rightarrow> string \<Rightarrow> string + qa_result" where
  "example_qa question context =
     (if contains ''crash'' question then Inl ''qa failed''
      else Inr \<lparr>score = (if contains ''cat'' context then 9 / 10 else 1 / 5),
                answer = take 7 context\<rparr>)"

definition example_services :: "nat services" where
  "example_services =
     \<lparr>encode = example_encode, cosine_similarity = example_cosine,
      summarizer = example_summarizer, qa_model = example_qa, arithmetic = exact\<rparr>"

definition failing_summarizer :: "string \<Rightarrow> nat \<Rightarrow> nat \<Rightarrow> bool \<Rightarrow> string + string" where
  "failing_summarizer t max_length min_length do_sample = Inl ''summarizer failed''"

definition failing_services :: "nat services" where
  "failing_services =
     \<lparr>encode = example_encode, cosine_similarity = example_cosine,
      summarizer = failing_summarizer, qa_model = example_qa, arithmetic = exact\<rparr>"

definition example_state :: "nat state" where
  \<comment> \<open>the state after loading the first two chunks\<close>
  "example_state =
     \<lparr>document_chunks = [0, 1], chunk_embeddings = Some [22, 17], heap = example_heap,
      calls = [Encode [''The cat is on the mat.'', ''Dogs bark loudly.'']]\<rparr>"

definition stuck_processor :: pdf_processor where
  "stuck_processor = \<lparr>chunk_size = 3, chunk_overlap = 2\<rparr>"

definition small_processor :: pdf_processor where
  "small_processor = \<lparr>chunk_size = 3, chunk_overlap = 1\<rparr>"

definition underscore_state :: "nat state" where
  \<comment> \<open>a document of one passage, whose only token has an underscore\<close>
  "underscore_state =
     \<lparr>document_chunks = [0], chunk_embeddings = Some [3], heap = [example_chunk ''a_b'' 0],
      calls = [Encode [''a_b'']]\<rparr>"


definition edge_similarity :: real where
  \<comment> \<open>the double \<open>0.14285714285714288\<close>\<close>
  "edge_similarity = 5146971002709139 / 36028797018963968"

definition edge_cosine :: "nat list \<Rightarrow> nat list \<Rightarrow> string + real list list" where
  "edge_cosine q es = Inr [map (\<lambda>e. edge_similarity) es]"

definition edge_services :: "arith \<Rightarrow> nat services" where
  "edge_services ar =
     \<lparr>encode = example_encode, cosine_similarity = edge_cosine,
      summarizer = example_summarizer, qa_model = example_qa, arithmetic = ar\<rparr>"

section \<open>Keyword scores\<close>

lemma length_calculate_keyword_scores:
  "length (calculate_keyword_scores ar s query_text) = length (document_chunks s)"
  by (simp add: calculate_keyword_scores_def Let_def)






text \<open>
  In exact arithmetic the order of those combined scores is the order of the semantic
  scores. In doubles two different semantic scores can give the same combined score, and
  then the index decides.
\<close>

lemma exact_ranking_is_semantic:
  "ranked_before (weighted_sum exact a 0, i) (weighted_sum exact b 0, j)
     = ranked_before (a, i) (b, j)"
  by (simp add: ranked_before_def exact_def)

lemma doubles_tie_on_semantic_scores:
  \<comment> \<open>the doubles \<open>0.9\<close> and the next one up, for passages 0 and 1\<close>
  "ranked_before (weighted_sum binary64 (8106479329266893 / 9007199254740992) 0, 0)
                 (weighted_sum binary64 (4053239664633447 / 4503599627370496) 0, 1)
   \<and> ranked_before (4053239664633447 / 4503599627370496, 1)
                   (8106479329266893 / 9007199254740992, 0)"
  by code_simp

text \<open>
  Claim C3, as stated, fails: the code filters the tokens of the query by length but not
  those of the passage, gives 0 without any bonus when the query has no long token, and
  counts the underscore as a word character. For the query \<open>cat\<close> the passage
  \<open>The cat is on the mat.\<close> scores 1/2, not 19/30; for \<open>is\<close> it scores 0, not 3/10; and
  the passage \<open>a_b\<close> scores 1 for the query \<open>a_b\<close>, not 3/10.
\<close>

theorem keyword_score_not_spec_formula:
  "calculate_keyword_scores exact example_state ''cat'' = [1 / 2, 0]
   \<and> map (spec_keyword_score ''cat'') (map (text_of example_state) (document_chunks example_state))
       = [19 / 30, 0]
   \<and> calculate_keyword_scores exact example_state ''is'' = [0, 0]
   \<and> map (spec_keyword_score ''is'') (map (text_of example_state) (document_chunks example_state))
       = [3 / 10, 0]
   \<and> calculate_keyword_scores exact underscore_state ''a_b'' = [1]
   \<and> map (spec_keyword_score ''a_b'')
         (map (text_of underscore_state) (document_chunks underscore_state))
       = [3 / 10]"
  by code_simp

text \<open>
  Claim C3, amended. The keyword score of passage \<open>i\<close> is 0 when the lowercased query has
  no word token (a run of alphanumeric characters or underscores) longer than two
  characters. Otherwise it is the Jaccard similarity between the set of those long tokens
  of the query and the set of all the word tokens of the lowercased passage, of any
  length, plus 0.3 when the lowercased query occurs in the lowercased passage, the sum
  being clamped to at most 1. The scores are those of the arithmetic without rounding.
\<close>

theorem keyword_score_formula:
  assumes "i < length (document_chunks s)"
  shows "calculate_keyword_scores exact s query_text ! i =
     (let text = text_of s (document_chunks s ! i);
          q = Set.filter (\<lambda>word. length word > 2) (set (findall_words (lower query_text)));
          w = set (findall_words (lower text))
      in if q = {} then 0
         else min (real (card (q \<inter> w)) / real (card (q \<union> w))
                   + (if contains (lower query_text) (lower text) then 0.3 else 0)) 1)"
  using assms
  by (auto simp add: calculate_keyword_scores_def keyword_score_of_def query_words_of_def Let_def
        exact_def)

theorem keyword_score_formula_witness:
  "(0::nat) < length (document_chunks example_state)
   \<and> calculate_keyword_scores exact example_state ''cat'' ! 0 = 1 / 2"
proof -
  have l: "(0::nat) < length (document_chunks example_state)"
    by (simp add: example_state_def)
  have "calculate_keyword_scores exact example_state ''cat'' ! 0 = 1 / 2"
    unfolding keyword_score_formula [OF l] by code_simp
  with l show ?thesis by blast
qed

text \<open>
  The same formula holds in every float arithmetic, with the quotient and the sum rounded
  as the arithmetic rounds them.
\<close>

lemma keyword_score_formula_rounded:
  assumes "i < length (document_chunks s)"
  shows "calculate_keyword_scores ar s query_text ! i =
     (let text = text_of s (document_chunks s ! i);
          q = Set.filter (\<lambda>word. length word > 2) (set (findall_words (lower query_text)));
          w = set (findall_words (lower text))
      in if q = {} then 0
         else min (float_sum ar (len_ratio ar (card (q \<inter> w)) (card (q \<union> w)))
                     (if contains (lower query_text) (lower text) then boost_value ar else 0)) 1)"
  using assms
  by (auto simp add: calculate_keyword_scores_def keyword_score_of_def query_words_of_def Let_def)

text \<open>
  Where the two formulas meet: when the query has a long token, neither text has an
  underscore, and every token of the passage is longer than two characters, the score of
  the code is the score of the specification.
\<close>

lemma runs_of_cong:
  assumes "\<forall>c\<in>set s. P c = Q c"
  shows "runs_of P s = runs_of Q s"
  using assms
proof (induction P s rule: runs_of.induct)
  case (1 P)
  then show ?case by simp
next
  case (2 P c cs)
  have tw: "takeWhile P (c # cs) = takeWhile Q (c # cs)"
    using "2.prems" by (intro takeWhile_cong) auto
  have dw: "dropWhile P cs = dropWhile Q cs"
    using "2.prems" by (intro dropWhile_cong) auto
  show ?case
  proof (cases "P c")
    case True
    have "\<forall>x\<in>set (dropWhile P cs). P x = Q x"
      using "2.prems" by (auto dest: set_dropWhileD)
    with "2.IH"(1) True have "runs_of P (dropWhile P cs) = runs_of Q (dropWhile P cs)" by simp
    with True tw dw "2.prems" show ?thesis by simp
  next
    case False
    with "2.IH"(2) "2.prems" have "runs_of P cs = runs_of Q cs" by simp
    with False "2.prems" show ?thesis by simp
  qed
qed

lemma spec_tokens_without_underscore:
  assumes "CHR ''_'' \<notin> set (lower s)"
  shows "spec_tokens s = Set.filter (\<lambda>word. length word > 2) (set (findall_words (lower s)))"
proof -
  have "runs_of is_alnum_char (lower s) = runs_of is_word_char (lower s)"
    using assms by (intro runs_of_cong) (auto simp: is_alnum_char_def)
  then show ?thesis by (simp add: spec_tokens_def findall_words_def)
qed

lemma keyword_score_agrees_with_spec:
  assumes i: "i < length (document_chunks s)"
    and q: "query_words_of query_text \<noteq> {}"
    and u: "CHR ''_'' \<notin> set (lower query_text)"
           "CHR ''_'' \<notin> set (lower (text_of s (document_chunks s ! i)))"
    and long: "\<forall>word\<in>set (findall_words (lower (text_of s (document_chunks s ! i)))). length word > 2"
  shows "calculate_keyword_scores exact s query_text ! i
           = spec_keyword_score query_text (text_of s (document_chunks s ! i))"
proof -
  define t where "t = text_of s (document_chunks s ! i)"
  have a: "spec_tokens query_text = query_words_of query_text"
    using u(1) by (simp add: spec_tokens_without_underscore query_words_of_def)
  have "spec_tokens t = Set.filter (\<lambda>word. length word > 2) (set (findall_words (lower t)))"
    using u(2) unfolding t_def by (rule spec_tokens_without_underscore)
  also have "\<dots> = set (findall_words (lower t))"
    using long by (auto simp: t_def)
  finally have b: "spec_tokens t = set (findall_words (lower t))" .
  have "calculate_keyword_scores exact s query_text ! i
          = keyword_score_of exact query_text (query_words_of query_text) t"
    using i q by (simp add: calculate_keyword_scores_def Let_def t_def)
  also have "\<dots> = spec_keyword_score query_text t"
    using q by (simp add: keyword_score_of_def spec_keyword_score_def a b Let_def exact_def)
  finally show ?thesis by (simp add: t_def)
qed

section \<open>The chunker\<close>

lemma stuck_chunk_end:
  "chunk_end stuck_processor ''aaaaaa.aaaa'' 0 = 4"
  "chunk_end stuck_processor ''aaaaaa.aaaa'' 2 = 6"
  "chunk_end stuck_processor ''aaaaaa.aaaa'' 4 = 7"
  "chunk_end stuck_processor ''aaaaaa.aaaa'' 5 = 7"
  by code_simp+

lemma stuck_next_start:
  "next_start stuck_processor 4 = 2"
  "next_start stuck_processor 6 = 4"
  "next_start stuck_processor 7 = 5"
  by (simp_all add: next_start_def stuck_processor_def)

lemma chunk_loop_not_at_5:
  assumes "chunk_loop p t start chunks = Some y"
  shows "\<not> (p = stuck_processor \<and> t = ''aaaaaa.aaaa'' \<and> start = 5)"
proof (rule chunk_loop.raw_induct
    [where P = "\<lambda>p t start chunks y. \<not> (p = stuck_processor \<and> t = ''aaaaaa.aaaa'' \<and> start = 5)",
     OF _ assms], goal_cases)
  case (1 f p t start chunks r)
  show ?case
  proof
    assume "p = stuck_processor \<and> t = ''aaaaaa.aaaa'' \<and> start = 5"
    with 1(2) have "\<exists>c. f stuck_processor ''aaaaaa.aaaa'' 5 c = Some r"
      by (auto simp: Let_def stuck_chunk_end stuck_next_start split: if_splits)
    with 1(1) show False by blast
  qed
qed

lemma chunk_loop_stuck: "chunk_loop stuck_processor ''aaaaaa.aaaa'' 5 chunks = None"
  using chunk_loop_not_at_5 by fastforce

lemma chunk_loop_stuck_from_0:
  "\<exists>c. chunk_loop stuck_processor ''aaaaaa.aaaa'' 0 []
         = chunk_loop stuck_processor ''aaaaaa.aaaa'' 5 c"
proof -
  have "\<exists>c. chunk_loop stuck_processor ''aaaaaa.aaaa'' 0 []
           = chunk_loop stuck_processor ''aaaaaa.aaaa'' 2 c"
    by (subst chunk_loop.simps) (auto simp add: stuck_chunk_end stuck_next_start Let_def)
  moreover have "\<exists>c'. chunk_loop stuck_processor ''aaaaaa.aaaa'' 2 c
           = chunk_loop stuck_processor ''aaaaaa.aaaa'' 4 c'" for c
    by (subst chunk_loop.simps) (auto simp add: stuck_chunk_end stuck_next_start Let_def)
  moreover have "\<exists>c'. chunk_loop stuck_processor ''aaaaaa.aaaa'' 4 c
           = chunk_loop stuck_processor ''aaaaaa.aaaa'' 5 c'" for c
    by (subst chunk_loop.simps) (auto simp add: stuck_chunk_end stuck_next_start Let_def)
  ultimately show ?thesis by metis
qed

text \<open>
  Claim C2 fails on the code. With \<open>chunk_size = 3\<close> and \<open>chunk_overlap = 2\<close>, a valid
  configuration, the loop on the text \<open>aaaaaa.aaaa\<close> reaches \<open>start = 5\<close>, cuts after the
  full stop at index 6, and sets \<open>start = 7 - 2 = 5\<close> again: the guard against going
  backwards tests \<open>start <= 0\<close>, not whether \<open>start\<close> advanced. It never returns.
\<close>

theorem create_chunks_never_returns:
  "0 < chunk_size stuck_processor
   \<and> 0 \<le> chunk_overlap stuck_processor
   \<and> chunk_overlap stuck_processor < chunk_size stuck_processor
   \<and> chunk_end stuck_processor ''aaaaaa.aaaa'' 5 = 7
   \<and> next_start stuck_processor 7 = 5
   \<and> create_chunks stuck_processor ''aaaaaa.aaaa'' = None"
proof -
  have "create_chunks stuck_processor ''aaaaaa.aaaa''
          = chunk_loop stuck_processor ''aaaaaa.aaaa'' 0 []"
    by (simp add: create_chunks_def stuck_processor_def)
  with chunk_loop_stuck_from_0 chunk_loop_stuck
  have "create_chunks stuck_processor ''aaaaaa.aaaa'' = None"
    by metis
  then show ?thesis
    by (simp add: stuck_chunk_end stuck_next_start) (simp add: stuck_processor_def)
qed

text \<open>
  The loop does return when the overlap is small against the search window: each
  iteration that continues cuts at least \<open>max (chunk_size - 200) 0 + 2\<close> characters after
  \<open>start\<close>, so \<open>start\<close> grows when \<open>chunk_overlap\<close> is below that. The defaults, 1000 and
  200, are such a configuration.
\<close>

lemma fold_max_ge: "fold max ps (p::int) \<ge> p"
proof (induction ps arbitrary: p)
  case Nil
  then show ?case by simp
next
  case (Cons a ps)
  have "p \<le> max a p" by simp
  also have "\<dots> \<le> fold max ps (max a p)" by (rule Cons.IH)
  finally show ?case by simp
qed

lemma best_end_of_gt:
  assumes "search_start < end"
  shows "search_start < best_end_of sentence_endings search_start end"
proof (cases "filter (\<lambda>pos. pos > search_start) sentence_endings")
  case Nil
  with assms show ?thesis by (simp add: best_end_of_def)
next
  case (Cons p ps)
  then have "p \<in> set (filter (\<lambda>pos. pos > search_start) sentence_endings)" by simp
  then have "search_start < p" by simp
  also have "p \<le> fold max ps p" by (rule fold_max_ge)
  finally show ?thesis using Cons by (simp add: best_end_of_def)
qed

lemma chunk_end_progress:
  assumes "0 < chunk_size p"
    and "start + chunk_size p < int (length text)"
  shows "start + max (chunk_size p - 200) 0 + 2 \<le> chunk_end p text start"
proof -
  define e where "e = start + chunk_size p"
  define search_start where "search_start = max (e - 200) start"
  have lt: "search_start < e" using assms(1) by (simp add: search_start_def e_def)
  have ss: "search_start = start + max (chunk_size p - 200) 0"
    by (simp add: search_start_def e_def max_def)
  define b where "b = best_end_of
                  [rfind text (CHR ''.'') search_start e,
                   rfind text (CHR ''!'') search_start e,
                   rfind text (CHR ''?'') search_start e,
                   rfind text (CHR 0x0A) search_start e] search_start e"
  have gt: "search_start < b" unfolding b_def using lt by (rule best_end_of_gt)
  have "chunk_end p text start = b + 1"
    using assms(2) gt
    by (simp add: chunk_end_def Let_def e_def [symmetric] search_start_def [symmetric] b_def [symmetric])
  with gt ss show ?thesis by simp
qed

lemma chunk_loop_returns:
  assumes "0 < chunk_size p" "0 \<le> chunk_overlap p"
    and "chunk_overlap p < max (chunk_size p - 200) 0 + 2"
  shows "\<exists>cs. chunk_loop p text start chunks = Some cs"
proof (induction "nat (int (length text) - start)" arbitrary: start chunks rule: less_induct)
  case less
  show ?case
  proof (cases "start < int (length text)")
    case False
    then show ?thesis by (subst chunk_loop.simps) simp
  next
    case True
    define e where "e = chunk_end p text start"
    define chunks' where
      "chunks' = (if strip (py_slice text start e) \<noteq> [] then chunks @ [strip (py_slice text start e)]
                  else chunks)"
    show ?thesis
    proof (cases "int (length text) \<le> e")
      case True
      with \<open>start < int (length text)\<close> show ?thesis
        by (subst chunk_loop.simps) (simp add: Let_def e_def [symmetric])
    next
      case False
      have "start + chunk_size p < int (length text)"
      proof (rule ccontr)
        assume "\<not> start + chunk_size p < int (length text)"
        then have "e = start + chunk_size p" by (simp add: e_def chunk_end_def Let_def)
        with False \<open>\<not> start + chunk_size p < int (length text)\<close> show False by simp
      qed
      from chunk_end_progress [OF assms(1) this]
      have "start + max (chunk_size p - 200) 0 + 2 \<le> e" by (simp add: e_def)
      with assms(2,3) have "start < next_start p e"
        by (simp add: next_start_def Let_def)
      with True have "nat (int (length text) - next_start p e) < nat (int (length text) - start)"
        by simp
      from less [OF this, of chunks'] obtain cs where
        "chunk_loop p text (next_start p e) chunks' = Some cs" ..
      with True False show ?thesis
        by (subst chunk_loop.simps) (simp add: Let_def e_def [symmetric] chunks'_def [symmetric])
    qed
  qed
qed

lemma create_chunks_returns:
  assumes "0 < chunk_size p" "0 \<le> chunk_overlap p"
    and "chunk_overlap p < max (chunk_size p - 200) 0 + 2"
  shows "\<exists>cs. create_chunks p text = Some cs"
  using chunk_loop_returns [OF assms] by (simp add: create_chunks_def)

lemma create_chunks_returns_by_default: "\<exists>cs. create_chunks default_processor text = Some cs"
  by (rule create_chunks_returns) (simp_all add: default_processor_def)

lemma dropWhile_hd_self: "xs = [] \<or> \<not> P (hd xs) \<Longrightarrow> dropWhile P xs = xs"
  by (cases xs) auto

lemma last_dropWhile: "dropWhile P xs \<noteq> [] \<Longrightarrow> last (dropWhile P xs) = last xs"
  by (induction xs) (auto split: if_splits)

lemma strip_idem: "strip (strip s) = strip s"
proof -
  define t where "t = dropWhile isspace s"
  define u where "u = dropWhile isspace (rev t)"
  have su: "strip s = rev u" by (simp add: strip_def t_def u_def)
  have "dropWhile isspace (rev u) = rev u"
  proof (cases "u = []")
    case True
    then show ?thesis by simp
  next
    case False
    then have "last u = last (rev t)" unfolding u_def by (rule last_dropWhile)
    moreover from False have "t \<noteq> []" by (auto simp: u_def)
    ultimately have "last u = hd t" by (simp add: last_rev)
    moreover have "\<not> isspace (hd t)" using \<open>t \<noteq> []\<close> unfolding t_def by (rule hd_dropWhile)
    ultimately have "\<not> isspace (hd (rev u))" using False by (simp add: hd_rev)
    then show ?thesis by (rule_tac dropWhile_hd_self) simp
  qed
  moreover have "dropWhile isspace u = u" by (simp add: u_def)
  ultimately have "strip (rev u) = rev u" unfolding strip_def [of "rev u"] by simp
  then show ?thesis unfolding su .
qed

lemma chunk_loop_nonblank:
  assumes "chunk_loop p t start chunks = Some cs"
  shows "(\<forall>c\<in>set chunks. strip c \<noteq> []) \<longrightarrow> (\<forall>c\<in>set cs. strip c \<noteq> [])"
proof (rule chunk_loop.raw_induct
    [where P = "\<lambda>p t start chunks cs.
        (\<forall>c\<in>set chunks. strip c \<noteq> []) \<longrightarrow> (\<forall>c\<in>set cs. strip c \<noteq> [])",
     OF _ assms], goal_cases)
  case (1 f p t start chunks r)
  show ?case
  proof
    assume acc: "\<forall>c\<in>set chunks. strip c \<noteq> []"
    show "\<forall>c\<in>set r. strip c \<noteq> []"
    proof (cases "start < int (length t)")
      case False
      with 1(2) acc show ?thesis by simp
    next
      case True
      define e where "e = chunk_end p t start"
      define chunk where "chunk = strip (py_slice t start e)"
      define chunks' where "chunks' = (if chunk \<noteq> [] then chunks @ [chunk] else chunks)"
      have acc': "\<forall>c\<in>set chunks'. strip c \<noteq> []"
        using acc by (auto simp: chunks'_def chunk_def strip_idem)
      from 1(2) True
      have "(if int (length t) \<le> e then Some chunks' else f p t (next_start p e) chunks') = Some r"
        by (auto simp: Let_def e_def chunk_def chunks'_def split: if_splits)
      then show ?thesis using acc' 1(1) by (auto split: if_splits)
    qed
  qed
qed

text \<open>
  Claim C4, as stated, fails: a text no longer than \<open>chunk_size\<close> is returned as it is,
  untrimmed, and the empty text gives one empty chunk.
\<close>

theorem create_chunks_short_text_untrimmed:
  "create_chunks default_processor '' a'' = Some ['' a'']
   \<and> strip '' a'' = ''a''
   \<and> create_chunks default_processor [] = Some [[]]
   \<and> strip [] = []"
  by code_simp

text \<open>
  Claim C4, amended. A text no longer than \<open>chunk_size\<close> is returned as one chunk equal to
  the input itself, which is the trimmed input when the input is already trimmed, as the
  cleaned text passed by \<open>extract_text_chunks\<close> is. Every string returned for a longer
  text, and every string returned for a text that has a non-blank character, is non-empty
  after trimming.
\<close>

theorem create_chunks_short_or_nonblank:
  "(int (length text) \<le> chunk_size p \<longrightarrow> create_chunks p text = Some [text])
   \<and> (int (length text) \<le> chunk_size p \<and> strip text = text
        \<longrightarrow> create_chunks p text = Some [strip text])
   \<and> (create_chunks p text = Some chunks
        \<and> (chunk_size p < int (length text) \<or> strip text \<noteq> [])
        \<longrightarrow> (\<forall>c\<in>set chunks. strip c \<noteq> []))"
proof -
  have "\<forall>c\<in>set chunks. strip c \<noteq> []"
    if r: "create_chunks p text = Some chunks"
      and h: "chunk_size p < int (length text) \<or> strip text \<noteq> []"
  proof (cases "int (length text) \<le> chunk_size p")
    case True
    with r h show ?thesis by (auto simp: create_chunks_def)
  next
    case False
    with r have "chunk_loop p text 0 [] = Some chunks" by (simp add: create_chunks_def)
    from chunk_loop_nonblank [OF this] show ?thesis by simp
  qed
  then show ?thesis by (auto simp: create_chunks_def)
qed

theorem create_chunks_short_or_nonblank_witness:
  "int (length ''The cat.'') \<le> chunk_size default_processor
   \<and> strip ''The cat.'' = ''The cat.''
   \<and> create_chunks default_processor ''The cat.'' = Some [''The cat.'']
   \<and> chunk_size small_processor < int (length ''ab. cd. efgh'')
   \<and> create_chunks small_processor ''ab. cd. efgh''
        = Some [''ab.'', ''. cd'', ''d.'', ''. ef'', ''fgh'']
   \<and> list_all (\<lambda>c. strip c \<noteq> []) [''ab.'', ''. cd'', ''d.'', ''. ef'', ''fgh'']"
proof -
  have a: "int (length ''The cat.'') \<le> chunk_size default_processor"
    by (simp add: default_processor_def)
  have b: "strip ''The cat.'' = ''The cat.''"
    by code_simp
  have c: "chunk_size small_processor < int (length ''ab. cd. efgh'')"
    by (simp add: small_processor_def)
  have d: "create_chunks small_processor ''ab. cd. efgh''
        = Some [''ab.'', ''. cd'', ''d.'', ''. ef'', ''fgh'']"
    by code_simp
  from create_chunks_short_or_nonblank [of "''The cat.''" default_processor] a b
  have e: "create_chunks default_processor ''The cat.'' = Some [''The cat.'']"
    by simp
  from create_chunks_short_or_nonblank
    [of "''ab. cd. efgh''" small_processor "[''ab.'', ''. cd'', ''d.'', ''. ef'', ''fgh'']"] c d
  have "list_all (\<lambda>c. strip c \<noteq> []) [''ab.'', ''. cd'', ''d.'', ''. ef'', ''fgh'']"
    by (simp add: list_all_iff)
  with a b c d e show ?thesis by blast
qed

section \<open>Retrieval\<close>

lemma slice_to_take: "0 \<le> k \<Longrightarrow> slice_to xs k = take (nat k) xs"
  by (auto simp: slice_to_def py_slice_def adjust_index_def Let_def min_def)

lemma insort_key_ranked:
  fixes f :: "'a \<Rightarrow> 'k::linorder"
  assumes "sorted_wrt (\<lambda>x y. f x < f y \<or> (f x = f y \<and> R x y)) ys"
    and "\<forall>y\<in>set ys. R x y"
  shows "sorted_wrt (\<lambda>x y. f x < f y \<or> (f x = f y \<and> R x y)) (insort_key f x ys)"
  using assms
proof (induction ys)
  case Nil
  then show ?case by simp
next
  case (Cons y ys)
  show ?case
  proof (cases "f x \<le> f y")
    case True
    have "f x < f z \<or> (f x = f z \<and> R x z)" if "z \<in> set (y # ys)" for z
    proof -
      have "f y \<le> f z" using that Cons.prems(1) by auto
      with True have "f x \<le> f z" by simp
      moreover have "R x z" using that Cons.prems(2) by auto
      ultimately show ?thesis by auto
    qed
    with True Cons.prems(1) show ?thesis by simp
  next
    case False
    then have "f y < f x" by simp
    moreover have "sorted_wrt (\<lambda>x y. f x < f y \<or> (f x = f y \<and> R x y)) (insort_key f x ys)"
      using Cons by simp
    ultimately show ?thesis using False Cons.prems(1) by (auto simp: set_insort_key)
  qed
qed

lemma sort_key_ranked:
  fixes f :: "'a \<Rightarrow> 'k::linorder"
  assumes "sorted_wrt R xs"
  shows "sorted_wrt (\<lambda>x y. f x < f y \<or> (f x = f y \<and> R x y)) (sort_key f xs)"
  using assms
proof (induction xs)
  case Nil
  then show ?case by simp
next
  case (Cons x xs)
  then have "sorted_wrt (\<lambda>x y. f x < f y \<or> (f x = f y \<and> R x y)) (sort_key f xs)"
    and "\<forall>y\<in>set (sort_key f xs). R x y"
    by auto
  then show ?case by (simp add: insort_key_ranked)
qed

lemma combined_scores_map:
  "combined_scores ar sims kws
     = map (\<lambda>i. (weighted_sum ar (sims ! i) (kws ! i), i)) [0..<min (length sims) (length kws)]"
  by (rule nth_equalityI) (simp_all add: combined_scores_def enumerate_eq_zip nth_enumerate_eq)

lemma combined_scores_snd:
  "map snd (combined_scores ar sims kws) = [0..<min (length sims) (length kws)]"
  by (simp add: combined_scores_def enumerate_eq_zip split_def comp_def)

lemma length_combined_scores:
  "length (combined_scores ar sims kws) = min (length sims) (length kws)"
  by (simp add: combined_scores_def)

lemma combined_scores_member:
  assumes "x \<in> set (combined_scores ar sims kws)"
  shows "snd x < min (length sims) (length kws)
       \<and> fst x = weighted_sum ar (sims ! snd x) (kws ! snd x)"
  using assms unfolding combined_scores_map by auto

lemma combined_scores_sorted_by_index:
  "sorted_wrt (\<lambda>x y. snd x < snd y) (combined_scores ar sims kws)"
proof -
  have "sorted_wrt (<) (map snd (combined_scores ar sims kws))"
    unfolding combined_scores_snd by simp
  then show ?thesis by (simp add: sorted_wrt_map)
qed

lemma sort_reverse_ranked:
  "sorted_wrt ranked_before (sort_reverse (combined_scores ar sims kws))"
proof -
  have "sorted_wrt (\<lambda>x y. - fst x < - fst y \<or> (- fst x = - fst y \<and> snd x < snd y))
          (sort_key (\<lambda>x. - fst x) (combined_scores ar sims kws))"
    by (rule sort_key_ranked) (rule combined_scores_sorted_by_index)
  then show ?thesis
    by (simp add: sort_reverse_def ranked_before_def [abs_def])
qed

lemma set_sort_reverse: "set (sort_reverse xs) = set xs"
  by (simp add: sort_reverse_def)

lemma length_sort_reverse: "length (sort_reverse xs) = length xs"
  by (simp add: sort_reverse_def)

lemma count_sort_reverse:
  "length (filter P (sort_reverse xs)) = length (filter P xs)"
  by (simp add: sort_reverse_def filter_sort)

text \<open>
  In a list sorted by a strict order, the entries that come before the entry at position
  \<open>p\<close> are the \<open>p\<close> entries to its left.
\<close>

lemma count_below: "length (filter (\<lambda>a. a < p) [0..<n]) = min p n"
  by (induction n) auto

lemma sorted_wrt_position:
  assumes s: "sorted_wrt R xs"
    and asym: "\<And>x y. R x y \<Longrightarrow> \<not> R y x"
    and p: "p < length xs"
  shows "length (filter (\<lambda>y. R y (xs ! p)) xs) = p"
proof -
  have iff: "R (xs ! a) (xs ! p) \<longleftrightarrow> a < p" if "a < length xs" for a
  proof
    assume r: "R (xs ! a) (xs ! p)"
    show "a < p"
    proof (rule ccontr)
      assume "\<not> a < p"
      then consider "a = p" | "p < a" by linarith
      then show False
      proof cases
        case 1
        with r asym show False by blast
      next
        case 2
        with s that have "R (xs ! p) (xs ! a)" by (simp add: sorted_wrt_iff_nth_less)
        with r asym show False by blast
      qed
    qed
  next
    assume "a < p"
    with s p show "R (xs ! a) (xs ! p)" by (simp add: sorted_wrt_iff_nth_less)
  qed
  have "filter (\<lambda>y. R y (xs ! p)) xs
          = filter (\<lambda>y. R y (xs ! p)) (map ((!) xs) [0..<length xs])"
    by (simp add: map_nth)
  also have "\<dots> = map ((!) xs) (filter (\<lambda>a. R (xs ! a) (xs ! p)) [0..<length xs])"
    by (simp add: filter_map comp_def)
  also have "filter (\<lambda>a. R (xs ! a) (xs ! p)) [0..<length xs]
               = filter (\<lambda>a. a < p) [0..<length xs]"
    by (rule filter_cong) (simp_all add: iff)
  finally have "length (filter (\<lambda>y. R y (xs ! p)) xs)
                  = length (filter (\<lambda>a. a < p) [0..<length xs])"
    by simp
  with p show ?thesis by (simp add: count_below)
qed

lemma ranked_before_asym: "ranked_before x y \<Longrightarrow> \<not> ranked_before y x"
  by (auto simp: ranked_before_def)

lemma rank_of_position:
  assumes p: "p < min (length sims) (length kws)"
  shows "rank_of (\<lambda>i. weighted_sum ar (sims ! i) (kws ! i)) (min (length sims) (length kws))
           (snd (sort_reverse (combined_scores ar sims kws) ! p)) = p"
proof -
  define cs where "cs = combined_scores ar sims kws"
  define srt where "srt = sort_reverse cs"
  define n where "n = min (length sims) (length kws)"
  define sc where "sc = (\<lambda>i. weighted_sum ar (sims ! i) (kws ! i))"
  have len: "length srt = n"
    by (simp add: srt_def cs_def n_def length_sort_reverse length_combined_scores)
  have cs: "cs = map (\<lambda>i. (sc i, i)) [0..<n]"
    by (simp add: cs_def n_def sc_def combined_scores_map)
  from p len have "srt ! p \<in> set cs"
    using set_sort_reverse [of cs] nth_mem [of p srt] by (simp add: srt_def n_def)
  then have x: "srt ! p = (sc (snd (srt ! p)), snd (srt ! p))"
    by (auto simp: cs)
  have "length (filter (\<lambda>y. ranked_before y (srt ! p)) srt) = p"
    using p len
    by (intro sorted_wrt_position)
       (simp_all add: srt_def cs_def sort_reverse_ranked ranked_before_asym n_def)
  then have "length (filter (\<lambda>y. ranked_before y (srt ! p)) cs) = p"
    by (simp add: srt_def count_sort_reverse)
  then have "length (filter (\<lambda>j. ranked_before (sc j, j) (srt ! p)) [0..<n]) = p"
    by (simp add: cs filter_map comp_def)
  then have "rank_of sc n (snd (srt ! p)) = p"
    unfolding rank_of_def using x by simp
  then show ?thesis by (simp add: srt_def cs_def n_def sc_def)
qed

lemma select_chunks_result:
  assumes "\<forall>a\<in>set (document_chunks s). a < length (heap s)"
    and "\<forall>x\<in>set l. snd x < length (document_chunks s)"
    and "select_chunks ar sims kws l s = (relevant, s')"
  shows "document_chunks s' = document_chunks s
       \<and> chunk_embeddings s' = chunk_embeddings s
       \<and> calls s' = calls s
       \<and> relevant = [length (heap s)..<length (heap s')]
       \<and> take (length (heap s)) (heap s') = heap s
       \<and> map ((!) (heap s')) relevant = map (scored_copy s sims kws) (filter (clears_floor ar) l)"
  using assms
proof (induction l arbitrary: s relevant s')
  case Nil
  then show ?case by simp
next
  case (Cons x l)
  obtain sc idx where x: "x = (sc, idx)" by (cases x)
  show ?case
  proof (cases "sc > relevance_floor ar")
    case False
    with Cons.prems(3) x have r: "select_chunks ar sims kws l s = (relevant, s')" by simp
    have p2: "\<forall>x\<in>set l. snd x < length (document_chunks s)"
      using Cons.prems(2) by simp
    have f: "filter (clears_floor ar) (x # l) = filter (clears_floor ar) l"
      using False by (simp add: clears_floor_def x)
    show ?thesis unfolding f by (rule Cons.IH [OF Cons.prems(1) p2 r])
  next
    case True
    define s2 where "s2 = set_scores (length (heap s)) sc (sims ! idx) (kws ! idx)
                            (snd (dict_copy s (document_chunks s ! idx)))"
    obtain rest s3 where r: "select_chunks ar sims kws l s2 = (rest, s3)"
      by (cases "select_chunks ar sims kws l s2")
    have h2: "heap s2 = heap s @ [scored_copy s sims kws x]"
      by (simp add: s2_def set_scores_def dict_copy_def scored_copy_def x)
    have d2: "document_chunks s2 = document_chunks s" "chunk_embeddings s2 = chunk_embeddings s" "calls s2 = calls s"
      by (simp_all add: s2_def set_scores_def dict_copy_def)
    from Cons.prems(3) True x r have res: "relevant = length (heap s) # rest" "s' = s3"
      by (simp_all add: Let_def dict_copy_def s2_def split: prod.splits)
    have p1: "\<forall>a\<in>set (document_chunks s2). a < length (heap s2)"
      using Cons.prems(1) by (auto simp: h2 d2)
    have p2: "\<forall>x\<in>set l. snd x < length (document_chunks s2)"
      using Cons.prems(2) by (simp add: d2)
    note IH = Cons.IH [OF p1 p2 r]
    have same: "scored_copy s2 sims kws y = scored_copy s sims kws y" if "y \<in> set l" for y
    proof -
      from that Cons.prems(2) have "snd y < length (document_chunks s)" by simp
      with Cons.prems(1) have "document_chunks s ! snd y < length (heap s)" by simp
      then show ?thesis by (simp add: scored_copy_def d2 h2 nth_append)
    qed
    have tk: "take (length (heap s2)) (heap s3) = heap s2" using IH by simp
    then have le: "length (heap s2) \<le> length (heap s3)"
      by (metis length_take min.cobounded1 min.commute)
    have t1: "take (length (heap s)) (heap s3) = heap s"
    proof -
      have "take (length (heap s)) (take (length (heap s2)) (heap s3)) = take (length (heap s)) (heap s2)"
        using tk by simp
      then show ?thesis by (simp add: h2 min_def)
    qed
    have n1: "heap s3 ! length (heap s) = scored_copy s sims kws x"
    proof -
      have "heap s3 ! length (heap s) = take (length (heap s2)) (heap s3) ! length (heap s)"
        by (simp add: h2)
      then show ?thesis by (simp add: tk) (simp add: h2)
    qed
    have "map (scored_copy s2 sims kws) (filter (clears_floor ar) l)
            = map (scored_copy s sims kws) (filter (clears_floor ar) l)"
      using same by (auto intro!: map_cong)
    moreover have "map ((!) (heap s3)) rest = map (scored_copy s2 sims kws) (filter (clears_floor ar) l)"
      using IH by blast
    ultimately have m: "map ((!) (heap s3)) rest = map (scored_copy s sims kws) (filter (clears_floor ar) l)"
      by simp
    have f: "filter (clears_floor ar) (x # l) = x # filter (clears_floor ar) l"
      using True by (simp add: clears_floor_def x)
    have u: "[length (heap s)..<length (heap s3)] = length (heap s) # rest"
    proof -
      have "rest = [Suc (length (heap s))..<length (heap s3)]" using IH by (simp add: h2)
      moreover have "length (heap s) < length (heap s3)" using le by (simp add: h2)
      ultimately show ?thesis by (simp add: upt_conv_Cons)
    qed
    have "document_chunks s3 = document_chunks s" "chunk_embeddings s3 = chunk_embeddings s"
      "calls s3 = calls s"
      using IH by (simp_all add: d2)
    then show ?thesis
      unfolding res f by (simp add: u t1 n1 m)
  qed
qed

lemma text_of_calls [simp]: "text_of (s\<lparr>calls := c\<rparr>) = text_of s"
  by (rule ext) (simp add: text_of_def)

lemma calculate_keyword_scores_calls [simp]:
  "calculate_keyword_scores ar (s\<lparr>calls := c\<rparr>) q = calculate_keyword_scores ar s q"
  by (simp add: calculate_keyword_scores_def Let_def)

lemma find_relevant_chunks_cases:
  obtains (failure) "semantic_scores svc s q = None"
      "find_relevant_chunks svc s q k = ([], log_call (Encode [q]) s)"
  | (success) sims where
      "semantic_scores svc s q = Some sims"
      "find_relevant_chunks svc s q k
         = select_chunks (arithmetic svc) sims (calculate_keyword_scores (arithmetic svc) s q)
             (slice_to (sort_reverse (combined_scores (arithmetic svc) sims
                                        (calculate_keyword_scores (arithmetic svc) s q))) k)
             (log_call (Encode [q]) s)"
proof (cases "encode svc [q]")
  case (Inl e)
  then have "semantic_scores svc s q = None"
    "find_relevant_chunks svc s q k = ([], log_call (Encode [q]) s)"
    by (simp_all add: find_relevant_chunks_def semantic_scores_def)
  then show ?thesis by (rule failure)
next
  case (Inr qe)
  note enc = this
  show ?thesis
  proof (cases "chunk_embeddings s")
    case None
    with enc have "semantic_scores svc s q = None"
      "find_relevant_chunks svc s q k = ([], log_call (Encode [q]) s)"
      by (simp_all add: find_relevant_chunks_def log_call_def semantic_scores_def)
    then show ?thesis by (rule failure)
  next
    case (Some embs)
    note emb = this
    show ?thesis
    proof (cases "cosine_similarity svc qe embs")
      case (Inl e)
      with enc emb have "semantic_scores svc s q = None"
        "find_relevant_chunks svc s q k = ([], log_call (Encode [q]) s)"
        by (simp_all add: find_relevant_chunks_def log_call_def semantic_scores_def)
      then show ?thesis by (rule failure)
    next
      case (Inr m)
      show ?thesis
      proof (cases m)
        case Nil
        with enc emb Inr have "semantic_scores svc s q = None"
          "find_relevant_chunks svc s q k = ([], log_call (Encode [q]) s)"
          by (simp_all add: find_relevant_chunks_def log_call_def semantic_scores_def)
        then show ?thesis by (rule failure)
      next
        case (Cons sims more)
        with enc emb Inr
        have "semantic_scores svc s q = Some sims"
          "find_relevant_chunks svc s q k
         = select_chunks (arithmetic svc) sims (calculate_keyword_scores (arithmetic svc) s q)
             (slice_to (sort_reverse (combined_scores (arithmetic svc) sims
                                        (calculate_keyword_scores (arithmetic svc) s q))) k)
             (log_call (Encode [q]) s)"
          by (simp_all add: find_relevant_chunks_def Let_def log_call_def semantic_scores_def)
        then show ?thesis by (rule success)
      qed
    qed
  qed
qed

text \<open>
  Claim C5. The semantic scores are the row that \<open>cosine_similarity\<close> returns for the
  encoded query and the stored embeddings, and the combined score of passage \<open>i\<close> is what
  the float arithmetic gives for \<open>0.7 * sem_score + 0.3 * kw_score\<close> on the semantic and
  the keyword score of that passage. The retriever returns at most \<open>top_k\<close> objects. Each
  is a copy of a stored passage with its combined, semantic and keyword score added, and
  its combined score is strictly above the floor, the float \<open>0.1\<close>. The returned passages
  are in descending order of combined score, equal scores in ascending order of index.
  They are the passages above the floor that fewer than \<open>top_k\<close> passages are ranked
  before, so a passage at or below the floor leaves its slot empty. When no passage
  clears the floor, or a service call fails, the result is empty. This holds for every
  float arithmetic; Python's \<open>list.sort\<close> is taken as a stable sort.
\<close>

theorem retriever_top_k_ranked:
  assumes k: "0 \<le> top_k"
    and refs: "\<forall>a\<in>set (document_chunks s). a < length (heap s)"
    and res: "find_relevant_chunks svc s query_text top_k = (relevant, s')"
  shows "length relevant \<le> nat top_k
    \<and> (case semantic_scores svc s query_text of
         None \<Rightarrow> relevant = []
       | Some similarities \<Rightarrow>
          (let ar = arithmetic svc;
               keyword_scores = calculate_keyword_scores ar s query_text;
               combined = (\<lambda>i. weighted_sum ar (similarities ! i) (keyword_scores ! i));
               n = min (length similarities) (length (document_chunks s))
           in \<exists>idxs.
                 length idxs = length relevant
               \<and> (\<forall>j<length relevant.
                     idxs ! j < n
                   \<and> heap s' ! (relevant ! j)
                       = (heap s ! (document_chunks s ! (idxs ! j)))
                           \<lparr>relevance_score := Some (combined (idxs ! j)),
                            semantic_score := Some (similarities ! (idxs ! j)),
                            keyword_score := Some (keyword_scores ! (idxs ! j))\<rparr>
                   \<and> combined (idxs ! j) > relevance_floor ar)
               \<and> sorted_wrt ranked_before (map (\<lambda>i. (combined i, i)) idxs)
               \<and> set idxs = {i. i < n \<and> combined i > relevance_floor ar
                                 \<and> rank_of combined n i < nat top_k}
               \<and> ((\<forall>i<n. combined i \<le> relevance_floor ar) \<longrightarrow> relevant = [])))"
proof (cases rule: find_relevant_chunks_cases [of svc s query_text top_k])
  case failure
  with res have "relevant = []" by simp
  with failure(1) show ?thesis by simp
next
  case (success sims)
  define ar where "ar = arithmetic svc"
  define kws where "kws = calculate_keyword_scores ar s query_text"
  define sc where "sc = (\<lambda>i. weighted_sum ar (sims ! i) (kws ! i))"
  define n where "n = min (length sims) (length (document_chunks s))"
  define srt where "srt = sort_reverse (combined_scores ar sims kws)"
  define l where "l = slice_to srt top_k"
  define ranked where "ranked = filter (clears_floor ar) l"
  define idxs where "idxs = map snd ranked"
  define s1 where "s1 = log_call (Encode [query_text]) s"
  have s1: "document_chunks s1 = document_chunks s" "heap s1 = heap s"
    by (simp_all add: s1_def log_call_def)
  have l: "l = take (nat top_k) srt"
    unfolding l_def using k by (rule slice_to_take)
  have lk: "length kws = length (document_chunks s)"
    by (simp add: kws_def length_calculate_keyword_scores)
  have n': "n = min (length sims) (length kws)"
    by (simp add: n_def lk)
  have lsrt: "length srt = n"
    by (simp add: srt_def length_sort_reverse length_combined_scores n')
  have ssrt: "set srt = (\<lambda>i. (sc i, i)) ` {..<n}"
    by (auto simp: srt_def set_sort_reverse combined_scores_map n' sc_def)
  have rank: "rank_of sc n (snd (srt ! p)) = p" if "p < n" for p
    using rank_of_position [of p sims kws ar] that by (simp add: n' sc_def srt_def)
  have mem: "snd x < n \<and> x = (sc (snd x), snd x)" if "x \<in> set l" for x
  proof -
    from that have "x \<in> set srt"
      unfolding l by (auto dest: in_set_takeD)
    then show ?thesis by (auto simp: ssrt)
  qed
  have sel: "select_chunks ar sims kws l s1 = (relevant, s')"
    using res success(2) by (simp add: kws_def l_def s1_def srt_def ar_def)
  have p1: "\<forall>a\<in>set (document_chunks s1). a < length (heap s1)"
    using refs by (simp add: s1)
  have p2: "\<forall>x\<in>set l. snd x < length (document_chunks s1)"
    using mem by (auto simp: s1 n_def)
  note R = select_chunks_result [OF p1 p2 sel]
  have m: "map ((!) (heap s')) relevant = map (scored_copy s1 sims kws) ranked"
    unfolding ranked_def using R by blast
  then have len: "length ranked = length relevant"
    by (metis length_map)
  then have leni: "length idxs = length relevant"
    by (simp add: idxs_def)
  have "length ranked \<le> length l" by (simp add: ranked_def)
  also have "\<dots> \<le> nat top_k" by (simp add: l)
  finally have bound: "length relevant \<le> nat top_k" by (simp add: len)
  have pairs: "map (\<lambda>i. (sc i, i)) idxs = ranked"
  proof -
    have "(sc (snd x), snd x) = x" if "x \<in> set ranked" for x
    proof -
      from that have "x \<in> set l" by (simp add: ranked_def)
      from mem [OF this] show ?thesis by simp
    qed
    then have "map (\<lambda>x. (sc (snd x), snd x)) ranked = map (\<lambda>x. x) ranked"
      by (intro map_cong) simp_all
    then show ?thesis by (simp add: idxs_def comp_def)
  qed
  have srt: "sorted_wrt ranked_before (map (\<lambda>i. (sc i, i)) idxs)"
    unfolding pairs ranked_def l srt_def
    by (intro sorted_wrt_filter sorted_wrt_take sort_reverse_ranked)
  have each: "idxs ! j < n
        \<and> heap s' ! (relevant ! j)
            = (heap s ! (document_chunks s ! (idxs ! j)))
                \<lparr>relevance_score := Some (sc (idxs ! j)),
                 semantic_score := Some (sims ! (idxs ! j)),
                 keyword_score := Some (kws ! (idxs ! j))\<rparr>
        \<and> sc (idxs ! j) > relevance_floor ar" if j: "j < length relevant" for j
  proof -
    from j len have in_r: "ranked ! j \<in> set ranked" by simp
    then have a: "ranked ! j \<in> set l" and b: "clears_floor ar (ranked ! j)"
      by (simp_all add: ranked_def)
    have i: "idxs ! j = snd (ranked ! j)"
      using j len by (simp add: idxs_def)
    from mem [OF a] have x: "snd (ranked ! j) < n" "fst (ranked ! j) = sc (snd (ranked ! j))"
      by (simp_all add: prod_eq_iff)
    have "heap s' ! (relevant ! j) = map ((!) (heap s')) relevant ! j"
      using j by simp
    also have "\<dots> = scored_copy s1 sims kws (ranked ! j)"
      unfolding m using j len by simp
    finally have "heap s' ! (relevant ! j)
            = (heap s ! (document_chunks s ! snd (ranked ! j)))
                \<lparr>relevance_score := Some (fst (ranked ! j)),
                 semantic_score := Some (sims ! snd (ranked ! j)),
                 keyword_score := Some (kws ! snd (ranked ! j))\<rparr>"
      by (simp add: scored_copy_def s1)
    with x b show ?thesis by (simp add: i clears_floor_def)
  qed
  have chosen: "set idxs = {i. i < n \<and> sc i > relevance_floor ar \<and> rank_of sc n i < nat top_k}"
  proof (intro set_eqI iffI)
    fix i assume "i \<in> set idxs"
    then obtain x where x: "x \<in> set ranked" and i: "i = snd x"
      by (auto simp: idxs_def)
    then have xl: "x \<in> set (take (nat top_k) srt)" and c: "clears_floor ar x"
      by (simp_all add: ranked_def l)
    from xl obtain p where p: "p < length (take (nat top_k) srt)" and xp: "take (nat top_k) srt ! p = x"
      by (auto simp: in_set_conv_nth)
    then have pn: "p < n" and pk: "p < nat top_k" and sp: "srt ! p = x"
      by (simp_all add: lsrt)
    from rank [OF pn] have "rank_of sc n i = p" by (simp add: sp i)
    moreover from mem [of x] xl have "i < n" "fst x = sc i"
      by (simp_all add: l i prod_eq_iff)
    ultimately show "i \<in> {i. i < n \<and> sc i > relevance_floor ar \<and> rank_of sc n i < nat top_k}"
      using pk c by (simp add: clears_floor_def)
  next
    fix i assume "i \<in> {i. i < n \<and> sc i > relevance_floor ar \<and> rank_of sc n i < nat top_k}"
    then have i: "i < n" and c: "sc i > relevance_floor ar" and r: "rank_of sc n i < nat top_k"
      by simp_all
    from i have "(sc i, i) \<in> set srt" by (simp add: ssrt)
    then obtain p where p: "p < n" and sp: "srt ! p = (sc i, i)"
      by (auto simp: in_set_conv_nth lsrt)
    from rank [OF p] have "rank_of sc n i = p" by (simp add: sp)
    with r have "p < nat top_k" by simp
    with p have "take (nat top_k) srt ! p = (sc i, i)" "p < length (take (nat top_k) srt)"
      by (simp_all add: sp lsrt)
    then have "(sc i, i) \<in> set l"
      unfolding l by (metis nth_mem)
    with c have "(sc i, i) \<in> set ranked"
      by (simp add: ranked_def clears_floor_def)
    then show "i \<in> set idxs"
      by (force simp: idxs_def)
  qed
  have none: "relevant = []" if "\<forall>i<n. sc i \<le> relevance_floor ar"
  proof -
    have "\<not> clears_floor ar x" if "x \<in> set l" for x
    proof -
      from mem [OF that] have "snd x < n" "fst x = sc (snd x)"
        by (simp_all add: prod_eq_iff)
      with \<open>\<forall>i<n. sc i \<le> relevance_floor ar\<close> show ?thesis
        by (auto simp: clears_floor_def)
    qed
    then have "ranked = []" by (auto simp: ranked_def filter_empty_conv)
    with len show ?thesis by simp
  qed
  have "\<exists>idxs.
         length idxs = length relevant
       \<and> (\<forall>j<length relevant.
             idxs ! j < n
           \<and> heap s' ! (relevant ! j)
               = (heap s ! (document_chunks s ! (idxs ! j)))
                   \<lparr>relevance_score := Some (sc (idxs ! j)),
                    semantic_score := Some (sims ! (idxs ! j)),
                    keyword_score := Some (kws ! (idxs ! j))\<rparr>
           \<and> sc (idxs ! j) > relevance_floor ar)
       \<and> sorted_wrt ranked_before (map (\<lambda>i. (sc i, i)) idxs)
       \<and> set idxs = {i. i < n \<and> sc i > relevance_floor ar \<and> rank_of sc n i < nat top_k}
       \<and> ((\<forall>i<n. sc i \<le> relevance_floor ar) \<longrightarrow> relevant = [])"
    apply (rule exI [of _ idxs])
    using leni each srt chosen none by blast
  with bound success(1) show ?thesis
    by (simp add: Let_def ar_def kws_def sc_def n_def)
qed

theorem retriever_top_k_ranked_witness:
  "0 \<le> default_top_k
   \<and> list_all (\<lambda>a. a < length (heap example_state)) (document_chunks example_state)
   \<and> fst (find_relevant_chunks example_services example_state ''where is the cat'' default_top_k)
       = [3, 4]
   \<and> semantic_scores example_services example_state ''where is the cat'' = Some [1 / 10, 1 / 2]
   \<and> calculate_keyword_scores exact example_state ''where is the cat'' = [1 / 3, 0]
   \<and> map (\<lambda>a. relevance_score
                 (heap (snd (find_relevant_chunks example_services example_state
                               ''where is the cat'' default_top_k)) ! a)) [3, 4]
       = [Some (7 / 20), Some (17 / 100)]
   \<and> (\<exists>idxs. idxs = [1, 0]
         \<and> sorted_wrt ranked_before
             (map (\<lambda>i. (weighted_sum exact ([1 / 10, 1 / 2] ! i) ([1 / 3, 0] ! i), i)) idxs)
         \<and> map (\<lambda>a. semantic_score
                 (heap (snd (find_relevant_chunks example_services example_state
                               ''where is the cat'' default_top_k)) ! a)) [3, 4]
             = map (\<lambda>i. Some ([1 / 10, 1 / 2] ! i)) idxs)"
proof -
  define s' where
    "s' = snd (find_relevant_chunks example_services example_state ''where is the cat'' default_top_k)"
  have k: "0 \<le> default_top_k"
    by (simp add: default_top_k_def)
  have refs: "list_all (\<lambda>a. a < length (heap example_state)) (document_chunks example_state)"
    by code_simp
  then have refs': "\<forall>a\<in>set (document_chunks example_state). a < length (heap example_state)"
    by (simp add: list_all_iff)
  have r: "fst (find_relevant_chunks example_services example_state ''where is the cat'' default_top_k)
       = [3, 4]"
    by code_simp
  have sem: "semantic_scores example_services example_state ''where is the cat''
               = Some [1 / 10, 1 / 2]"
    by code_simp
  have kw: "calculate_keyword_scores exact example_state ''where is the cat'' = [1 / 3, 0]"
    by code_simp
  have v: "map (\<lambda>a. relevance_score
                 (heap (snd (find_relevant_chunks example_services example_state
                               ''where is the cat'' default_top_k)) ! a)) [3, 4]
       = [Some (7 / 20), Some (17 / 100)]"
    by code_simp
  have ar: "arithmetic example_services = exact"
    by (simp add: example_services_def)
  have d: "length (document_chunks example_state) = 2"
    by (simp add: example_state_def)
  have c: "weighted_sum exact ([1 / 10, 1 / 2] ! 0) ([1 / 3, 0] ! 0) = 17 / 100"
    "weighted_sum exact ([1 / 10, 1 / 2] ! 1) ([1 / 3, 0] ! 1) = 7 / 20"
    by (simp_all add: exact_def)
  have res: "find_relevant_chunks example_services example_state ''where is the cat'' default_top_k
       = ([3, 4], s')"
    using r by (simp add: s'_def prod_eq_iff)
  note T = retriever_top_k_ranked [OF k refs' res, unfolded sem ar kw d option.case Let_def]
  from T [THEN conjunct2] obtain idxs where I:
    "length idxs = length [3::nat, 4]
     \<and> (\<forall>j<length [3::nat, 4].
           idxs ! j < min (length [1 / 10, 1 / 2 :: real]) 2
         \<and> heap s' ! ([3, 4] ! j)
             = (heap example_state ! (document_chunks example_state ! (idxs ! j)))
                 \<lparr>relevance_score :=
                    Some (weighted_sum exact ([1 / 10, 1 / 2] ! (idxs ! j)) ([1 / 3, 0] ! (idxs ! j))),
                  semantic_score := Some ([1 / 10, 1 / 2] ! (idxs ! j)),
                  keyword_score := Some ([1 / 3, 0] ! (idxs ! j))\<rparr>
         \<and> relevance_floor exact
             < weighted_sum exact ([1 / 10, 1 / 2] ! (idxs ! j)) ([1 / 3, 0] ! (idxs ! j)))
     \<and> sorted_wrt ranked_before
          (map (\<lambda>i. (weighted_sum exact ([1 / 10, 1 / 2] ! i) ([1 / 3, 0] ! i), i)) idxs)
     \<and> set idxs =
          {i. i < min (length [1 / 10, 1 / 2 :: real]) 2
              \<and> relevance_floor exact < weighted_sum exact ([1 / 10, 1 / 2] ! i) ([1 / 3, 0] ! i)
              \<and> rank_of (\<lambda>i. weighted_sum exact ([1 / 10, 1 / 2] ! i) ([1 / 3, 0] ! i))
                    (min (length [1 / 10, 1 / 2 :: real]) 2) i < nat default_top_k}
     \<and> ((\<forall>i<min (length [1 / 10, 1 / 2 :: real]) 2.
            weighted_sum exact ([1 / 10, 1 / 2] ! i) ([1 / 3, 0] ! i) \<le> relevance_floor exact)
          \<longrightarrow> [3::nat, 4] = [])" ..
  note n = I [THEN conjunct1]
  note b = I [THEN conjunct2, THEN conjunct1, rule_format]
  note o = I [THEN conjunct2, THEN conjunct2, THEN conjunct1]
  from n obtain i j where ij: "idxs = [i, j]"
    by (cases idxs; cases "tl idxs") auto
  from b [of 0] have i: "i < 2" "semantic_score (heap s' ! 3) = Some ([1 / 10, 1 / 2] ! i)"
    by (simp_all add: ij)
  from b [of 1] have j: "j < 2" "semantic_score (heap s' ! 4) = Some ([1 / 10, 1 / 2] ! j)"
    by (simp_all add: ij)
  from o have rb: "ranked_before (weighted_sum exact ([1 / 10, 1 / 2] ! i) ([1 / 3, 0] ! i), i)
                     (weighted_sum exact ([1 / 10, 1 / 2] ! j) ([1 / 3, 0] ! j), j)"
    by (simp add: ij)
  from i(1) j(1) have "(i = 0 \<or> i = 1) \<and> (j = 0 \<or> j = 1)" by auto
  with rb c have "i = 1 \<and> j = 0"
    by (auto simp: ranked_before_def)
  with ij have e: "idxs = [1, 0]" by simp
  from i(2) j(2) have "map (\<lambda>a. semantic_score (heap s' ! a)) [3, 4]
          = map (\<lambda>i. Some ([1 / 10, 1 / 2] ! i)) idxs"
    by (simp add: ij)
  with e o have "\<exists>idxs. idxs = [1, 0]
         \<and> sorted_wrt ranked_before
             (map (\<lambda>i. (weighted_sum exact ([1 / 10, 1 / 2] ! i) ([1 / 3, 0] ! i), i)) idxs)
         \<and> map (\<lambda>a. semantic_score (heap s' ! a)) [3, 4]
             = map (\<lambda>i. Some ([1 / 10, 1 / 2] ! i)) idxs"
    by blast
  with k refs r sem kw v show ?thesis
    unfolding s'_def by blast
qed

text \<open>
  The floor is compared in the arithmetic of the floats. For the semantic score
  \<open>0.14285714285714288\<close> and the keyword score 0, the combined score in doubles is the
  double \<open>0.1\<close> itself, which does not clear the floor, so the retriever returns nothing;
  without rounding the score would be above one tenth.
\<close>

lemma floor_compared_in_doubles:
  "weighted_sum binary64 edge_similarity 0 = relevance_floor binary64
   \<and> fst (find_relevant_chunks (edge_services binary64) underscore_state ''zz'' default_top_k) = []
   \<and> weighted_sum exact edge_similarity 0 > relevance_floor exact
   \<and> fst (find_relevant_chunks (edge_services exact) underscore_state ''zz'' default_top_k) = [1]"
  by code_simp

section \<open>Queries do not change the document\<close>

lemma set_slice_to: "set (slice_to xs k) \<subseteq> set xs"
  by (auto simp: slice_to_def py_slice_def Let_def dest: in_set_takeD in_set_dropD)

lemma find_relevant_chunks_frame:
  assumes refs: "\<forall>a\<in>set (document_chunks s). a < length (heap s)"
    and res: "find_relevant_chunks svc s query_text top_k = (relevant, s1)"
  shows "document_chunks s1 = document_chunks s
       \<and> chunk_embeddings s1 = chunk_embeddings s
       \<and> calls s1 = calls s @ [Encode [query_text]]
       \<and> relevant = [length (heap s)..<length (heap s1)]
       \<and> take (length (heap s)) (heap s1) = heap s"
proof (cases rule: find_relevant_chunks_cases [of svc s query_text top_k])
  case failure
  with res show ?thesis by (auto simp: log_call_def)
next
  case (success sims)
  define ar where "ar = arithmetic svc"
  define kws where "kws = calculate_keyword_scores ar s query_text"
  define l where "l = slice_to (sort_reverse (combined_scores ar sims kws)) top_k"
  define s0 where "s0 = log_call (Encode [query_text]) s"
  have s0: "document_chunks s0 = document_chunks s" "heap s0 = heap s"
    "chunk_embeddings s0 = chunk_embeddings s" "calls s0 = calls s @ [Encode [query_text]]"
    by (simp_all add: s0_def log_call_def)
  have sel: "select_chunks ar sims kws l s0 = (relevant, s1)"
    using res success(2) by (simp add: kws_def l_def s0_def ar_def)
  have p1: "\<forall>a\<in>set (document_chunks s0). a < length (heap s0)"
    using refs by (simp add: s0)
  have p2: "\<forall>x\<in>set l. snd x < length (document_chunks s0)"
  proof
    fix x assume "x \<in> set l"
    then have "x \<in> set (combined_scores ar sims kws)"
      using set_slice_to [of "sort_reverse (combined_scores ar sims kws)" top_k]
      by (auto simp: l_def set_sort_reverse)
    from combined_scores_member [OF this]
    show "snd x < length (document_chunks s0)"
      by (simp add: s0 kws_def length_calculate_keyword_scores)
  qed
  from select_chunks_result [OF p1 p2 sel] show ?thesis
    by (simp add: s0)
qed

lemma qa_loop_frame:
  assumes "qa_loop svc query_text cs best s = (r, s')"
  shows "document_chunks s' = document_chunks s \<and> chunk_embeddings s' = chunk_embeddings s
       \<and> heap s' = heap s"
  using assms
proof (induction cs arbitrary: best s)
  case Nil
  then show ?case by simp
next
  case (Cons c cs)
  obtain ba bs bc where best: "best = (ba, bs, bc)" by (cases best)
  define s1 where "s1 = log_call (Answer query_text (slice_to (text_of s c) 1000)) s"
  have s1: "document_chunks s1 = document_chunks s" "chunk_embeddings s1 = chunk_embeddings s"
    "heap s1 = heap s"
    by (simp_all add: s1_def log_call_def)
  show ?case
  proof (cases "qa_model svc query_text (slice_to (text_of s c) 1000)")
    case (Inl e)
    with Cons.prems best have "s' = s1" by (simp add: s1_def Let_def)
    with s1 show ?thesis by simp
  next
    case (Inr result)
    with Cons.prems best
    have "\<exists>b. qa_loop svc query_text cs b s1 = (r, s')"
      by (auto simp: s1_def Let_def split: if_splits)
    then obtain b where "qa_loop svc query_text cs b s1 = (r, s')" ..
    from Cons.IH [OF this] s1 show ?thesis by simp
  qed
qed

lemma query_frame:
  assumes refs: "\<forall>a\<in>set (document_chunks s). a < length (heap s)"
    and q: "query svc s query_text top_k = (response, s')"
  shows "document_chunks s' = document_chunks s
       \<and> chunk_embeddings s' = chunk_embeddings s
       \<and> take (length (heap s)) (heap s') = heap s"
proof -
  obtain relevant s1 where f: "find_relevant_chunks svc s query_text top_k = (relevant, s1)"
    by (cases "find_relevant_chunks svc s query_text top_k")
  note F = find_relevant_chunks_frame [OF refs f]
  show ?thesis
  proof (cases "document_chunks s = [] \<or> chunk_embeddings s = None")
    case True
    with q show ?thesis by (auto simp: query_def)
  next
    case False
    note loaded = this
    show ?thesis
    proof (cases "is_summary_query query_text")
      case True
      with q loaded show ?thesis
        by (auto simp: query_def Let_def log_call_def split: sum.splits)
    next
      case False
      show ?thesis
      proof (cases "relevant = []")
        case True
        with q loaded False f have "s' = s1" by (simp add: query_def)
        with F show ?thesis by simp
      next
        case ne: False
        obtain r s2 where l: "qa_loop svc query_text relevant ([], - 1, []) s1 = (r, s2)"
          by (cases "qa_loop svc query_text relevant ([], - 1, []) s1")
        with q loaded False f ne have "s' = s2"
          by (auto simp: query_def split: sum.splits prod.splits if_splits)
        with qa_loop_frame [OF l] F show ?thesis by simp
      qed
    qed
  qed
qed

text \<open>
  Claim C9. A query leaves the document session as it was: the list of stored passages and
  the embedding matrix are the same after the call, and every object that existed before
  the call, among them the stored passage objects, is unchanged. The scored passages that
  the retriever hands to the QA loop and to the response builder are objects created
  during the call, each a copy, none of them a stored passage object.
\<close>

theorem query_reads_only:
  assumes refs: "\<forall>a\<in>set (document_chunks s). a < length (heap s)"
    and q: "query svc s query_text top_k = (response, s')"
    and f: "find_relevant_chunks svc s query_text top_k = (relevant, s1)"
  shows "document_chunks s' = document_chunks s
       \<and> chunk_embeddings s' = chunk_embeddings s
       \<and> take (length (heap s)) (heap s') = heap s
       \<and> map ((!) (heap s')) (document_chunks s) = map ((!) (heap s)) (document_chunks s)
       \<and> set relevant \<inter> set (document_chunks s) = {}
       \<and> distinct relevant
       \<and> (\<forall>a\<in>set relevant. length (heap s) \<le> a \<and> a < length (heap s1))"
proof -
  note F = find_relevant_chunks_frame [OF refs f]
  have fresh: "\<forall>a\<in>set relevant. length (heap s) \<le> a \<and> a < length (heap s1)"
    using F by auto
  then have disj: "set relevant \<inter> set (document_chunks s) = {}"
    using refs by fastforce
  have dist: "distinct relevant" using F by simp
  note frame = query_frame [OF refs q]
  have "map ((!) (heap s')) (document_chunks s) = map ((!) (heap s)) (document_chunks s)"
  proof (rule map_cong [OF refl])
    fix a assume "a \<in> set (document_chunks s)"
    with refs have "a < length (heap s)" by simp
    then have "take (length (heap s)) (heap s') ! a = heap s' ! a" by simp
    with frame show "heap s' ! a = heap s ! a" by simp
  qed
  with frame fresh disj dist show ?thesis by blast
qed

theorem query_reads_only_witness:
  "list_all (\<lambda>a. a < length (heap example_state)) (document_chunks example_state)
   \<and> document_chunks (snd (query example_services example_state ''where is the cat'' default_top_k))
       = [0, 1]
   \<and> chunk_embeddings (snd (query example_services example_state ''where is the cat'' default_top_k))
       = Some [22, 17]
   \<and> take 3 (heap (snd (query example_services example_state ''where is the cat'' default_top_k)))
       = example_heap
   \<and> fst (find_relevant_chunks example_services example_state ''where is the cat'' default_top_k)
       = [3, 4]
   \<and> set [3, 4] \<inter> set (document_chunks example_state) = {}"
proof -
  have refs: "list_all (\<lambda>a. a < length (heap example_state)) (document_chunks example_state)"
    by code_simp
  then have refs': "\<forall>a\<in>set (document_chunks example_state). a < length (heap example_state)"
    by (simp add: list_all_iff)
  have r: "fst (find_relevant_chunks example_services example_state ''where is the cat'' default_top_k)
       = [3, 4]"
    by code_simp
  have e: "document_chunks example_state = [0, 1]" "chunk_embeddings example_state = Some [22, 17]"
    "heap example_state = example_heap" "length example_heap = 3"
    by (simp_all add: example_state_def example_heap_def)
  from query_reads_only
    [where svc = example_services and s = example_state
       and query_text = "''where is the cat''" and top_k = default_top_k,
     OF refs' surjective_pairing surjective_pairing] r e refs
  show ?thesis by simp
qed

section \<open>Answer selection\<close>

lemma text_of_log_call [simp]: "text_of (log_call c s) = text_of s"
  by (simp add: log_call_def)

lemma first_with_Cons:
  "first_with c (r # rs) = (if score r = c then answer r else first_with c rs)"
  by (simp add: first_with_def)

lemma highest_confidence_Cons:
  "rs \<noteq> [] \<Longrightarrow> highest_confidence (r # rs) = max (score r) (highest_confidence rs)"
  by (simp add: highest_confidence_def)

lemma highest_confidence_single: "highest_confidence [r] = score r"
  by (simp add: highest_confidence_def)

lemma qa_loop_best:
  assumes "map (\<lambda>a. qa_model svc q (slice_to (text_of s a) 1000)) cs = map Inr results"
    and "cs \<noteq> []"
  shows "\<exists>ctx s2. qa_loop svc q cs (ba, bs, bc) s
           = (Inr (if highest_confidence results > bs
                   then first_with (highest_confidence results) results else ba,
                   max bs (highest_confidence results), ctx), s2)
         \<and> heap s2 = heap s"
  using assms
proof (induction cs arbitrary: results ba bs bc s)
  case Nil
  then show ?case by simp
next
  case (Cons c cs)
  from Cons.prems(1) obtain r rs where results: "results = r # rs"
    and r: "qa_model svc q (slice_to (text_of s c) 1000) = Inr r"
    and rs: "map (\<lambda>a. qa_model svc q (slice_to (text_of s a) 1000)) cs = map Inr rs"
    by (cases results) auto
  define s1 where "s1 = log_call (Answer q (slice_to (text_of s c) 1000)) s"
  have h1: "heap s1 = heap s" by (simp add: s1_def log_call_def)
  have rs1: "map (\<lambda>a. qa_model svc q (slice_to (text_of s1 a) 1000)) cs = map Inr rs"
    using rs by (simp add: s1_def)
  define b' where "b' = (if score r > bs then (answer r, score r, slice_to (text_of s c) 1000)
                         else (ba, bs, bc))"
  have step: "qa_loop svc q (c # cs) (ba, bs, bc) s = qa_loop svc q cs b' s1"
    using r by (simp add: Let_def s1_def b'_def)
  show ?case
  proof (cases "cs = []")
    case True
    with rs have "rs = []" by simp
    with True step show ?thesis
      by (auto simp: results b'_def highest_confidence_single first_with_Cons h1)
  next
    case False
    with rs have ne: "rs \<noteq> []" by auto
    obtain ba' bs' bc' where b: "b' = (ba', bs', bc')" by (cases b')
    from Cons.IH [OF rs1 False, of ba' bs' bc']
    obtain ctx s2 where l: "qa_loop svc q cs (ba', bs', bc') s1
           = (Inr (if highest_confidence rs > bs'
                   then first_with (highest_confidence rs) rs else ba',
                   max bs' (highest_confidence rs), ctx), s2)" and h2: "heap s2 = heap s1"
      by blast
    have hc: "highest_confidence (r # rs) = max (score r) (highest_confidence rs)"
      using ne by (rule highest_confidence_Cons)
    have "(if highest_confidence rs > bs' then first_with (highest_confidence rs) rs else ba')
          = (if highest_confidence results > bs
                   then first_with (highest_confidence results) results else ba)
        \<and> max bs' (highest_confidence rs) = max bs (highest_confidence results)"
      using b unfolding results hc b'_def first_with_Cons
      by (auto simp: max_def split: if_splits)
    with l h2 h1 step b show ?thesis by simp
  qed
qed

text \<open>
  The response builder of the source against the fallback excerpt of the specification:
  joining the parts with newlines gives the sections one after the other.
\<close>

lemma join_Cons: "join sep (x # xs) = x @ concat (map (\<lambda>p. sep @ p) xs)"
  by (induction xs arbitrary: x) simp_all

lemma slice_to_800: "slice_to t 800 = take 800 t"
  using slice_to_take [of 800 t] by simp

lemma slice_to_2000: "slice_to t 2000 = take 2000 t"
  using slice_to_take [of 2000 t] by simp

lemma section_parts_labeled:
  "concat (map (\<lambda>p. [CHR 0x0A] @ p) (section_parts s (i, a)))
     = [CHR 0x0A] @ ''--- Relevant Section '' @ show_nat (i + 1) @ '' ---''
         @ [CHR 0x0A] @ excerpt (text_of s a) @ [CHR 0x0A]"
  by (simp add: Let_def excerpt_def slice_to_800 del: show_nat.simps)

lemma sections_labeled:
  "concat (map (\<lambda>p. [CHR 0x0A] @ p) (concat (map (section_parts s) (enumerate k relevant))))
     = labeled_sections (k + 1) (map (text_of s) relevant)"
proof (induction relevant arbitrary: k)
  case Nil
  then show ?case by simp
next
  case (Cons a relevant)
  have "concat (map (\<lambda>p. [CHR 0x0A] @ p)
                  (concat (map (section_parts s) (enumerate k (a # relevant)))))
          = concat (map (\<lambda>p. [CHR 0x0A] @ p) (section_parts s (k, a)))
              @ concat (map (\<lambda>p. [CHR 0x0A] @ p)
                          (concat (map (section_parts s) (enumerate (Suc k) relevant))))"
    by (simp del: section_parts.simps)
  also have "\<dots> = labeled_sections (k + 1) (map (text_of s) (a # relevant))"
    unfolding section_parts_labeled using Cons.IH [of "Suc k"]
    by (simp del: show_nat.simps)
  finally show ?case .
qed

lemma generate_response_fallback_excerpt:
  "generate_response s query_text relevant
     = fallback_excerpt query_text (map (text_of s) relevant)"
proof -
  have J: "join [CHR 0x0A]
          ([''Based on the document content:'' @ [CHR 0x0A]]
             @ concat (map (section_parts s) (enumerate 0 relevant))
             @ (if length relevant > 1
                then [''--- Summary ---'',
                      ''The above content from '' @ show_nat (length relevant)
                        @ '' sections answers your query about: '' @ [CHR 0x27] @ query_text
                        @ [CHR 0x27] @ ''.'']
                else []))
        = ''Based on the document content:'' @ [CHR 0x0A]
            @ labeled_sections 1 (map (text_of s) relevant)
            @ (if length (map (text_of s) relevant) > 1
               then closing_note query_text (length (map (text_of s) relevant)) else [])"
    using sections_labeled [of s 0 relevant]
    by (simp add: join_Cons closing_note_def del: show_nat.simps)
  show ?thesis
    unfolding generate_response_def fallback_excerpt_def Let_def J
    by (simp only: slice_to_2000)
qed

lemma confidence_floor_above_start:
  "- 1 < confidence_floor exact \<and> - 1 < confidence_floor binary64"
  by code_simp

text \<open>
  Claim C6, as stated, fails: when a QA call raises, the answer is neither the fallback
  excerpt nor a marked answer, and the count is not the number of retrieved passages. For
  the query \<open>crash\<close> on the example document the retriever returns one passage, the QA
  service raises on it, and the result is the error text with the count 0.
\<close>

theorem query_with_failing_qa_reports_error:
  "document_chunks example_state \<noteq> [] \<and> chunk_embeddings example_state \<noteq> None
   \<and> is_summary_query ''crash'' = False
   \<and> fst (find_relevant_chunks example_services example_state ''crash'' default_top_k) = [3]
   \<and> qa_model example_services ''crash''
        (slice_to (text_of (snd (find_relevant_chunks example_services example_state
                                   ''crash'' default_top_k)) 3) 1000)
       = Inl ''qa failed''
   \<and> fst (query example_services example_state ''crash'' default_top_k)
       = (''Error processing your query: qa failed'', 0)"
  by code_simp

text \<open>
  Claim C6, amended. On a loaded document, for a query that does not ask for a summary and
  for which the retriever returns at least one passage, provided that every QA call
  returns: when the highest confidence among the QA results is below the float \<open>0.3\<close>, or
  the answer of the first result with that confidence is empty or blank, or shorter than
  three characters once trimmed, the response is the fallback excerpt of the texts of the
  retrieved passages, in ranked order, and the count is the number of retrieved passages;
  otherwise the response is the answer marker followed by that answer, trimmed, and the
  count is the number of passages examined. The fallback excerpt is the opening line,
  for each passage a numbered header and its first 800 characters (with an ellipsis when
  cut), a closing note naming the query and the number of passages when there is more
  than one, the whole cut to 2000 characters with a notice when cut. The scan for the best
  result starts from the score -1, and the float \<open>0.3\<close> is taken to be above it, as it
  is without rounding and in doubles.
\<close>

theorem query_accepts_or_falls_back:
  assumes loaded: "document_chunks s \<noteq> []" "chunk_embeddings s \<noteq> None"
    and nosum: "\<not> is_summary_query query_text"
    and f: "find_relevant_chunks svc s query_text top_k = (relevant, s1)"
    and ne: "relevant \<noteq> []"
    and qa: "map (\<lambda>a. qa_model svc query_text (slice_to (text_of s1 a) 1000)) relevant
               = map Inr results"
    and floor: "- 1 < confidence_floor (arithmetic svc)"
  shows "fst (query svc s query_text top_k) =
     (let best_confidence = highest_confidence results;
          best_answer = first_with best_confidence results
      in if best_confidence < confidence_floor (arithmetic svc)
            \<or> strip best_answer = [] \<or> length (strip best_answer) < 3
         then (fallback_excerpt query_text (map (text_of s1) relevant), length relevant)
         else (answer_marker @ strip best_answer, length results))"
proof -
  define hi where "hi = highest_confidence results"
  define fb where "fb = first_with hi results"
  define fl where "fl = confidence_floor (arithmetic svc)"
  from qa_loop_best [OF qa ne, of "[]" "- 1" "[]"]
  obtain ctx s2 where l: "qa_loop svc query_text relevant ([], - 1, []) s1
           = (Inr (if hi > - 1 then fb else [], max (- 1) hi, ctx), s2)"
    and h: "heap s2 = heap s1"
    by (auto simp: hi_def fb_def)
  have t: "text_of s2 = text_of s1"
    by (rule ext) (simp add: text_of_def h)
  have g: "generate_response s2 query_text relevant
             = fallback_excerpt query_text (map (text_of s1) relevant)"
    by (simp add: generate_response_fallback_excerpt t)
  have n: "length results = length relevant"
    using qa by (metis length_map)
  have e: "strip [] = []" by (simp add: strip_def)
  have q: "fst (query svc s query_text top_k) =
     (case qa_loop svc query_text relevant ([], - 1, []) s1 of
        (Inl e, s2) \<Rightarrow> (error_prefix @ e, 0)
      | (Inr (best_answer, best_score, best_context), s2) \<Rightarrow>
          if best_score < fl \<or> best_answer = [] \<or> length (strip best_answer) < 3
          then (generate_response s2 query_text relevant, length relevant)
          else (answer_marker @ strip best_answer, length relevant))"
    using loaded nosum f ne
    by (auto simp: query_def fl_def split: prod.splits sum.splits)
  have "fst (query svc s query_text top_k) =
     (if hi < fl \<or> strip fb = [] \<or> length (strip fb) < 3
         then (fallback_excerpt query_text (map (text_of s1) relevant), length relevant)
         else (answer_marker @ strip fb, length results))"
  proof (cases "hi > - 1")
    case True
    then have m: "max (- 1) hi = hi" by simp
    from True show ?thesis
      unfolding q l by (auto simp: g n m e)
  next
    case False
    then have m: "max (- 1) hi = - 1" by simp
    from False floor have "hi < fl" by (simp add: fl_def)
    with False floor show ?thesis
      unfolding q l by (simp add: g m e fl_def)
  qed
  then show ?thesis by (simp add: hi_def fb_def fl_def Let_def)
qed

theorem query_accepts_or_falls_back_witness:
  "document_chunks example_state \<noteq> [] \<and> chunk_embeddings example_state \<noteq> None
   \<and> is_summary_query ''where is the cat'' = False
   \<and> fst (find_relevant_chunks example_services example_state ''where is the cat'' default_top_k)
       = [3, 4]
   \<and> map (\<lambda>a. qa_model example_services ''where is the cat''
                 (slice_to (text_of (snd (find_relevant_chunks example_services example_state
                                            ''where is the cat'' default_top_k)) a) 1000)) [3, 4]
       = map Inr [\<lparr>score = 1 / 5, answer = ''Dogs ba''\<rparr>, \<lparr>score = 9 / 10, answer = ''The cat''\<rparr>]
   \<and> - 1 < confidence_floor (arithmetic example_services)
   \<and> fst (query example_services example_state ''where is the cat'' default_top_k)
       = (answer_marker @ ''The cat'', 2)
   \<and> is_summary_query ''dogs'' = False
   \<and> fst (find_relevant_chunks example_services example_state ''dogs'' default_top_k) = [3]
   \<and> map (\<lambda>a. qa_model example_services ''dogs''
                 (slice_to (text_of (snd (find_relevant_chunks example_services example_state
                                            ''dogs'' default_top_k)) a) 1000)) [3]
       = map Inr [\<lparr>score = 1 / 5, answer = ''Dogs ba''\<rparr>]
   \<and> fst (query example_services example_state ''dogs'' default_top_k)
       = (''Based on the document content:'' @ [CHR 0x0A, CHR 0x0A]
            @ ''--- Relevant Section 1 ---'' @ [CHR 0x0A] @ ''Dogs bark loudly.'' @ [CHR 0x0A], 1)"
proof -
  define s1 where
    "s1 = snd (find_relevant_chunks example_services example_state ''where is the cat'' default_top_k)"
  define t1 where
    "t1 = snd (find_relevant_chunks example_services example_state ''dogs'' default_top_k)"
  have a: "document_chunks example_state \<noteq> []" "chunk_embeddings example_state \<noteq> None"
    by (simp_all add: example_state_def)
  have b: "is_summary_query ''where is the cat'' = False"
    by code_simp
  have r: "fst (find_relevant_chunks example_services example_state ''where is the cat'' default_top_k)
       = [3, 4]"
    by code_simp
  have f: "find_relevant_chunks example_services example_state ''where is the cat'' default_top_k
       = ([3, 4], s1)"
    using r by (simp add: s1_def prod_eq_iff)
  have q: "map (\<lambda>a. qa_model example_services ''where is the cat''
                 (slice_to (text_of (snd (find_relevant_chunks example_services example_state
                                            ''where is the cat'' default_top_k)) a) 1000)) [3, 4]
       = map Inr [\<lparr>score = 1 / 5, answer = ''Dogs ba''\<rparr>, \<lparr>score = 9 / 10, answer = ''The cat''\<rparr>]"
    by code_simp
  have c: "(let best_confidence = highest_confidence [\<lparr>score = 1 / 5, answer = ''Dogs ba''\<rparr>, \<lparr>score = 9 / 10, answer = ''The cat''\<rparr>];
          best_answer = first_with best_confidence [\<lparr>score = 1 / 5, answer = ''Dogs ba''\<rparr>, \<lparr>score = 9 / 10, answer = ''The cat''\<rparr>]
      in (best_confidence < confidence_floor (arithmetic example_services)
            \<or> strip best_answer = [] \<or> length (strip best_answer) < 3, strip best_answer))
      = (False, ''The cat'')"
    by code_simp
  have fl: "- 1 < confidence_floor (arithmetic example_services)"
    by (simp add: example_services_def exact_def)
  have accept: "fst (query example_services example_state ''where is the cat'' default_top_k)
       = (answer_marker @ ''The cat'', 2)"
    using query_accepts_or_falls_back [OF a _ f _ q [folded s1_def] fl] b c
    by (simp add: Let_def)
  have b': "is_summary_query ''dogs'' = False"
    by code_simp
  have r': "fst (find_relevant_chunks example_services example_state ''dogs'' default_top_k) = [3]"
    by code_simp
  have f': "find_relevant_chunks example_services example_state ''dogs'' default_top_k = ([3], t1)"
    using r' by (simp add: t1_def prod_eq_iff)
  have q': "map (\<lambda>a. qa_model example_services ''dogs''
                 (slice_to (text_of (snd (find_relevant_chunks example_services example_state
                                            ''dogs'' default_top_k)) a) 1000)) [3]
       = map Inr [\<lparr>score = 1 / 5, answer = ''Dogs ba''\<rparr>]"
    by code_simp
  have c': "highest_confidence [\<lparr>score = 1 / 5, answer = ''Dogs ba''\<rparr>]
              < confidence_floor (arithmetic example_services)"
    by code_simp
  have g: "fallback_excerpt ''dogs''
             (map (text_of (snd (find_relevant_chunks example_services example_state
                                   ''dogs'' default_top_k))) [3])
           = ''Based on the document content:'' @ [CHR 0x0A, CHR 0x0A]
            @ ''--- Relevant Section 1 ---'' @ [CHR 0x0A] @ ''Dogs bark loudly.'' @ [CHR 0x0A]"
    by code_simp
  have fallback: "fst (query example_services example_state ''dogs'' default_top_k)
       = (''Based on the document content:'' @ [CHR 0x0A, CHR 0x0A]
            @ ''--- Relevant Section 1 ---'' @ [CHR 0x0A] @ ''Dogs bark loudly.'' @ [CHR 0x0A], 1)"
    using query_accepts_or_falls_back [OF a _ f' _ q' [folded t1_def] fl] b' c' g [folded t1_def]
    by (simp add: Let_def)
  from a b r q fl accept b' r' q' fallback show ?thesis by blast
qed

section \<open>Summaries\<close>

text \<open>
  Claim C7, as stated, fails in one point: the text given to the summarizer is not cut from
  the concatenation of the passage texts but from their join with single spaces. For the
  two passages of the example the summarizer receives
  \<open>The cat is on the mat. Dogs bark loudly.\<close>, with a space between the passages.
\<close>

theorem summary_input_is_space_joined:
  "document_chunks example_state \<noteq> [] \<and> chunk_embeddings example_state \<noteq> None
   \<and> contains ''summarize'' (lower ''Please summarize'')
   \<and> calls (snd (query example_services example_state ''Please summarize'' default_top_k))
       = calls example_state @ [Summarize ''The cat is on the mat. Dogs bark loudly.'' 180 60 False]
   \<and> take 3000 (concat (map (text_of example_state) (document_chunks example_state)))
       = ''The cat is on the mat.Dogs bark loudly.''
   \<and> ''The cat is on the mat. Dogs bark loudly.'' \<noteq> ''The cat is on the mat.Dogs bark loudly.''"
  by code_simp

text \<open>
  Claim C7, amended. On a loaded document, when the lowercased query contains
  \<open>summarize\<close>, \<open>summary\<close> or \<open>overview\<close>, the only service call of the query is one call
  of the summarizer, on the first 3000 characters of the passage texts joined by single
  spaces in passage order, with \<open>max_length = 180\<close>, \<open>min_length = 60\<close> and sampling off;
  no encoder call and no QA call is made, no object is created or changed, and when the
  summarizer returns, the response is the summary marker followed by the summary, with
  one passage used.
\<close>

theorem query_summarizes:
  assumes loaded: "document_chunks s \<noteq> []" "chunk_embeddings s \<noteq> None"
    and trigger: "contains ''summarize'' (lower query_text) \<or> contains ''summary'' (lower query_text)
                  \<or> contains ''overview'' (lower query_text)"
  shows "(let full_text = take 3000 (join '' '' (map (text_of s) (document_chunks s)));
              (response, s') = query svc s query_text top_k
          in calls s' = calls s @ [Summarize full_text 180 60 False]
             \<and> heap s' = heap s
             \<and> (\<forall>summary. summarizer svc full_text 180 60 False = Inr summary
                   \<longrightarrow> response = (summary_marker @ summary, 1)))"
proof -
  have t: "is_summary_query query_text"
    using trigger by (auto simp: is_summary_query_def summary_keywords_def)
  have ft: "full_text_of s = take 3000 (join '' '' (map (text_of s) (document_chunks s)))"
    by (simp add: full_text_of_def slice_to_take)
  show ?thesis
    using loaded t
    by (auto simp: query_def Let_def ft [symmetric] log_call_def split: sum.splits)
qed

theorem query_summarizes_witness:
  "document_chunks example_state \<noteq> [] \<and> chunk_embeddings example_state \<noteq> None
   \<and> contains ''summarize'' (lower ''Please summarize'')
   \<and> take 3000 (join '' '' (map (text_of example_state) (document_chunks example_state)))
       = ''The cat is on the mat. Dogs bark loudly.''
   \<and> summarizer example_services ''The cat is on the mat. Dogs bark loudly.'' 180 60 False
       = Inr ''The cat''
   \<and> fst (query example_services example_state ''Please summarize'' default_top_k)
       = (summary_marker @ ''The cat'', 1)
   \<and> calls (snd (query example_services example_state ''Please summarize'' default_top_k))
       = calls example_state @ [Summarize ''The cat is on the mat. Dogs bark loudly.'' 180 60 False]"
proof -
  have a: "document_chunks example_state \<noteq> []" "chunk_embeddings example_state \<noteq> None"
    by (simp_all add: example_state_def)
  have b: "contains ''summarize'' (lower ''Please summarize'')"
    by code_simp
  have c: "take 3000 (join '' '' (map (text_of example_state) (document_chunks example_state)))
       = ''The cat is on the mat. Dogs bark loudly.''"
    by code_simp
  have d: "summarizer example_services ''The cat is on the mat. Dogs bark loudly.'' 180 60 False
       = Inr ''The cat''"
    by code_simp
  from b have b': "contains ''summarize'' (lower ''Please summarize'')
      \<or> contains ''summary'' (lower ''Please summarize'')
      \<or> contains ''overview'' (lower ''Please summarize'')" by simp
  have "fst (query example_services example_state ''Please summarize'' default_top_k)
       = (summary_marker @ ''The cat'', 1)
   \<and> calls (snd (query example_services example_state ''Please summarize'' default_top_k))
       = calls example_state @ [Summarize ''The cat is on the mat. Dogs bark loudly.'' 180 60 False]"
    using query_summarizes [OF a b', of example_services default_top_k] d
    unfolding c by (auto simp: Let_def split: prod.splits)
  with a b c d show ?thesis by blast
qed

section \<open>Failing services\<close>

lemma qa_loop_failure:
  assumes "\<exists>a\<in>set cs. \<exists>e. qa_model svc q (slice_to (text_of s a) 1000) = Inl e"
  shows "\<exists>a e s2. a \<in> set cs \<and> qa_model svc q (slice_to (text_of s a) 1000) = Inl e
           \<and> qa_loop svc q cs best s = (Inl e, s2)"
  using assms
proof (induction cs arbitrary: best s)
  case Nil
  then show ?case by simp
next
  case (Cons c cs)
  obtain ba bs bc where best: "best = (ba, bs, bc)" by (cases best)
  define s1 where "s1 = log_call (Answer q (slice_to (text_of s c) 1000)) s"
  have t: "text_of s1 = text_of s" by (simp add: s1_def)
  show ?case
  proof (cases "qa_model svc q (slice_to (text_of s c) 1000)")
    case (Inl e)
    then have "qa_loop svc q (c # cs) best s = (Inl e, s1)"
      by (simp add: best s1_def Let_def)
    with Inl show ?thesis by auto
  next
    case (Inr result)
    with Cons.prems have "\<exists>a\<in>set cs. \<exists>e. qa_model svc q (slice_to (text_of s1 a) 1000) = Inl e"
      by (auto simp: t)
    note IH = Cons.IH [OF this]
    define b' where "b' = (if score result > bs then (answer result, score result, slice_to (text_of s c) 1000)
                         else (ba, bs, bc))"
    have step: "qa_loop svc q (c # cs) best s = qa_loop svc q cs b' s1"
      using Inr by (simp add: best Let_def s1_def b'_def)
    from IH [of b'] show ?thesis
      unfolding step t by auto
  qed
qed

text \<open>
  Claim C8, as stated, fails in one point: when the encoder raises, the exception is caught
  inside the retriever, which returns the empty list, and the query answers with the
  message for "no relevant passage", not with an error response.
\<close>

theorem embedding_failure_reported_as_not_found:
  "document_chunks example_state \<noteq> [] \<and> chunk_embeddings example_state \<noteq> None
   \<and> encode example_services [''boom''] = Inl ''encoder failed''
   \<and> fst (query example_services example_state ''boom'' default_top_k) = (not_found_message, 0)
   \<and> \<not> prefix error_prefix not_found_message"
  by code_simp

text \<open>
  Claim C8, amended. On a loaded document no failure of a service call reaches the caller
  of a query, and the count of passages used is 0: when the summarizer raises, the response
  is the error prefix followed by the text of the exception; when the encoder raises, the
  response is the fixed message that no relevant information was found; when a QA call
  raises, the response is the error prefix followed by the text of that exception.
\<close>

theorem query_absorbs_service_failures:
  assumes loaded: "document_chunks s \<noteq> []" "chunk_embeddings s \<noteq> None"
  shows "(is_summary_query query_text
            \<and> summarizer svc (full_text_of s) 180 60 False = Inl e
          \<longrightarrow> fst (query svc s query_text top_k) = (error_prefix @ e, 0))
       \<and> (\<not> is_summary_query query_text \<and> encode svc [query_text] = Inl e
          \<longrightarrow> fst (query svc s query_text top_k) = (not_found_message, 0))
       \<and> (\<not> is_summary_query query_text
            \<and> find_relevant_chunks svc s query_text top_k = (relevant, s1)
            \<and> (\<exists>a\<in>set relevant. \<exists>e'. qa_model svc query_text (slice_to (text_of s1 a) 1000) = Inl e')
          \<longrightarrow> (\<exists>a e'. a \<in> set relevant
                 \<and> qa_model svc query_text (slice_to (text_of s1 a) 1000) = Inl e'
                 \<and> fst (query svc s query_text top_k) = (error_prefix @ e', 0)))"
proof (intro conjI impI)
  assume "is_summary_query query_text \<and> summarizer svc (full_text_of s) 180 60 False = Inl e"
  with loaded show "fst (query svc s query_text top_k) = (error_prefix @ e, 0)"
    by (auto simp: query_def Let_def)
next
  assume a: "\<not> is_summary_query query_text \<and> encode svc [query_text] = Inl e"
  then have "find_relevant_chunks svc s query_text top_k = ([], log_call (Encode [query_text]) s)"
    by (simp add: find_relevant_chunks_def)
  with loaded a show "fst (query svc s query_text top_k) = (not_found_message, 0)"
    by (auto simp: query_def)
next
  assume a: "\<not> is_summary_query query_text
            \<and> find_relevant_chunks svc s query_text top_k = (relevant, s1)
            \<and> (\<exists>a\<in>set relevant. \<exists>e'. qa_model svc query_text (slice_to (text_of s1 a) 1000) = Inl e')"
  then have ne: "relevant \<noteq> []" by auto
  from a qa_loop_failure [of relevant svc query_text s1 "([], - 1, [])"]
  obtain c e' s2 where c: "c \<in> set relevant"
    and f: "qa_model svc query_text (slice_to (text_of s1 c) 1000) = Inl e'"
    and l: "qa_loop svc query_text relevant ([], - 1, []) s1 = (Inl e', s2)"
    by blast
  from loaded a ne l have "fst (query svc s query_text top_k) = (error_prefix @ e', 0)"
    by (auto simp: query_def)
  with c f show "\<exists>a e'. a \<in> set relevant
                 \<and> qa_model svc query_text (slice_to (text_of s1 a) 1000) = Inl e'
                 \<and> fst (query svc s query_text top_k) = (error_prefix @ e', 0)"
    by blast
qed

theorem query_absorbs_service_failures_witness:
  "document_chunks example_state \<noteq> [] \<and> chunk_embeddings example_state \<noteq> None
   \<and> is_summary_query ''summary''
   \<and> summarizer failing_services (full_text_of example_state) 180 60 False = Inl ''summarizer failed''
   \<and> fst (query failing_services example_state ''summary'' default_top_k)
       = (error_prefix @ ''summarizer failed'', 0)
   \<and> is_summary_query ''boom'' = False
   \<and> encode example_services [''boom''] = Inl ''encoder failed''
   \<and> fst (query example_services example_state ''boom'' default_top_k) = (not_found_message, 0)
   \<and> is_summary_query ''crash'' = False
   \<and> fst (find_relevant_chunks example_services example_state ''crash'' default_top_k) = [3]
   \<and> qa_model example_services ''crash''
        (slice_to (text_of (snd (find_relevant_chunks example_services example_state ''crash''
                                   default_top_k)) 3) 1000) = Inl ''qa failed''
   \<and> fst (query example_services example_state ''crash'' default_top_k)
       = (error_prefix @ ''qa failed'', 0)"
proof -
  define s1 where
    "s1 = snd (find_relevant_chunks example_services example_state ''crash'' default_top_k)"
  have a: "document_chunks example_state \<noteq> []" "chunk_embeddings example_state \<noteq> None"
    by (simp_all add: example_state_def)
  have b1: "is_summary_query ''summary''" by code_simp
  have b2: "summarizer failing_services (full_text_of example_state) 180 60 False
              = Inl ''summarizer failed''"
    by (simp add: failing_services_def failing_summarizer_def)
  have c1: "is_summary_query ''boom'' = False" by code_simp
  have c2: "encode example_services [''boom''] = Inl ''encoder failed''" by code_simp
  have d1: "is_summary_query ''crash'' = False" by code_simp
  have d2: "fst (find_relevant_chunks example_services example_state ''crash'' default_top_k) = [3]"
    by code_simp
  have d3: "qa_model example_services ''crash''
        (slice_to (text_of (snd (find_relevant_chunks example_services example_state ''crash''
                                   default_top_k)) 3) 1000) = Inl ''qa failed''"
    by (simp add: example_services_def example_qa_def) code_simp
  have f: "find_relevant_chunks example_services example_state ''crash'' default_top_k = ([3], s1)"
    using d2 by (simp add: s1_def prod_eq_iff)
  note T = query_absorbs_service_failures [OF a]
  have r1: "fst (query failing_services example_state ''summary'' default_top_k)
       = (error_prefix @ ''summarizer failed'', 0)"
    using T [of "''summary''" failing_services "''summarizer failed''" default_top_k] b1 b2
    by simp
  have r2: "fst (query example_services example_state ''boom'' default_top_k) = (not_found_message, 0)"
    using T [of "''boom''" example_services "''encoder failed''" default_top_k] c1 c2
    by simp
  have "\<exists>a e'. a \<in> set [3]
                 \<and> qa_model example_services ''crash'' (slice_to (text_of s1 a) 1000) = Inl e'
                 \<and> fst (query example_services example_state ''crash'' default_top_k)
                     = (error_prefix @ e', 0)"
    using T [of "''crash''" example_services _ default_top_k "[3]" s1] d1 f d3 [folded s1_def]
    by simp
  then have r3: "fst (query example_services example_state ''crash'' default_top_k)
       = (error_prefix @ ''qa failed'', 0)"
    using d3 [folded s1_def] by auto
  from a b1 b2 r1 c1 c2 r2 d1 d2 d3 r3 show ?thesis by blast
qed

section \<open>Alignment of passages and embeddings\<close>

lemma aligned_after_clear: "aligned svc (clear_document s)"
  by (simp add: aligned_def clear_document_def)

lemma aligned_after_successful_load:
  assumes "initialize_document svc s chunks = (Inr (), s')"
    and "\<And>texts embeddings. encode svc texts = Inr embeddings \<Longrightarrow> length embeddings = length texts"
  shows "aligned svc s'"
proof (cases "encode svc (map (text_of s) chunks)")
  case (Inl e)
  with assms(1) show ?thesis
    by (simp add: initialize_document_def Let_def text_of_def [abs_def])
next
  case (Inr embeddings)
  with assms(1) have s': "s' = (log_call (Encode (map (text_of s) chunks))
                                 (s\<lparr>document_chunks := chunks\<rparr>))\<lparr>chunk_embeddings := Some embeddings\<rparr>"
    by (simp add: initialize_document_def Let_def text_of_def [abs_def])
  have t: "text_of s' = text_of s"
    by (rule ext) (simp add: s' text_of_def log_call_def)
  have d: "document_chunks s' = chunks" "chunk_embeddings s' = Some embeddings"
    by (simp_all add: s' log_call_def)
  from assms(2) [OF Inr] Inr show ?thesis
    by (simp add: aligned_def t d)
qed

lemma failed_load_keeps_old_embeddings:
  assumes "initialize_document svc s chunks = (Inl e, s')"
  shows "document_chunks s' = chunks \<and> chunk_embeddings s' = chunk_embeddings s"
  using assms
  by (auto simp: initialize_document_def Let_def log_call_def split: sum.splits)

lemma aligned_after_query:
  assumes "aligned svc s"
    and refs: "\<forall>a\<in>set (document_chunks s). a < length (heap s)"
  shows "aligned svc (snd (query svc s query_text top_k))"
proof -
  define s' where "s' = snd (query svc s query_text top_k)"
  have q: "query svc s query_text top_k = (fst (query svc s query_text top_k), s')"
    by (simp add: s'_def)
  note F = query_frame [OF refs q]
  have m: "map (text_of s') (document_chunks s) = map (text_of s) (document_chunks s)"
  proof (rule map_cong [OF refl])
    fix a assume "a \<in> set (document_chunks s)"
    with refs have "a < length (heap s)" by simp
    then have "take (length (heap s)) (heap s') ! a = heap s' ! a" by simp
    with F show "text_of s' a = text_of s a" by (simp add: text_of_def)
  qed
  have d: "document_chunks s' = document_chunks s" "chunk_embeddings s' = chunk_embeddings s"
    using F by simp_all
  from assms(1) show ?thesis
    unfolding s'_def [symmetric] aligned_def d m .
qed

lemma example_state_reachable:
  "run example_services (init_state example_heap) [Load [0, 1]] = example_state"
  by code_simp

text \<open>
  Claim C1 fails on the code. \<open>initialize_document\<close> assigns the new passages before it
  calls the encoder and restores nothing when the encoder raises. After a successful load
  of two passages the state is aligned; a second load, of one passage on which the encoder
  raises, leaves that one passage paired with the two embeddings of the first document.
  The same failing load on the initial state leaves one passage and no embeddings. The
  lemmas above show that a successful load, a clear and a query keep the alignment.
\<close>

theorem failed_load_breaks_alignment:
  "aligned example_services (run example_services (init_state example_heap) [Load [0, 1]])
   \<and> fst (initialize_document example_services
            (run example_services (init_state example_heap) [Load [0, 1]]) [2])
       = Inl ''encoder failed''
   \<and> document_chunks (run example_services (init_state example_heap) [Load [0, 1], Load [2]]) = [2]
   \<and> chunk_embeddings (run example_services (init_state example_heap) [Load [0, 1], Load [2]])
       = Some [22, 17]
   \<and> \<not> aligned example_services
          (run example_services (init_state example_heap) [Load [0, 1], Load [2]])
   \<and> document_chunks (run example_services (init_state example_heap) [Load [2]]) = [2]
   \<and> chunk_embeddings (run example_services (init_state example_heap) [Load [2]]) = None
   \<and> \<not> aligned example_services (run example_services (init_state example_heap) [Load [2]])"
  by code_simp

end
